theory Spec2Isabelle
  imports Complex_Main "HOL-Library.Sublist" "HOL-Library.Multiset" "HOL-Library.AList"
begin

section \<open>Python strings\<close>

text \<open>
  Text is modelled as \<^typ>\<open>string\<close>, a list of 8-bit characters. The functions below
  follow Python's \<^verbatim>\<open>str\<close> methods on ASCII text: \<^verbatim>\<open>lower\<close> and \<^verbatim>\<open>upper\<close> change the
  26 ASCII letters and leave every other character as it is, \<^verbatim>\<open>strip\<close> removes the
  ASCII white space characters from both ends, and \<^verbatim>\<open>sub in s\<close> is the contiguous
  sublist test.
\<close>

definition ascii_upper :: string where
  "ascii_upper = ''ABCDEFGHIJKLMNOPQRSTUVWXYZ''"

definition ascii_lower :: string where
  "ascii_lower = ''abcdefghijklmnopqrstuvwxyz''"

definition lower_char :: "char \<Rightarrow> char" where
  "lower_char c = (case map_of (zip ascii_upper ascii_lower) c of Some d \<Rightarrow> d | None \<Rightarrow> c)"

definition upper_char :: "char \<Rightarrow> char" where
  "upper_char c = (case map_of (zip ascii_lower ascii_upper) c of Some d \<Rightarrow> d | None \<Rightarrow> c)"

definition lower :: "string \<Rightarrow> string" where
  "lower s = map lower_char s"

definition upper :: "string \<Rightarrow> string" where
  "upper s = map upper_char s"

definition whitespace :: string where
  "whitespace =
     [CHR 0x09, CHR 0x0A, CHR 0x0B, CHR 0x0C, CHR 0x0D, CHR 0x1C, CHR 0x1D, CHR 0x1E, CHR 0x1F,
      CHR 0x20]"

definition isspace :: "char \<Rightarrow> bool" where
  "isspace c = (c \<in> set whitespace)"

definition strip :: "string \<Rightarrow> string" where
  "strip s = rev (dropWhile isspace (rev (dropWhile isspace s)))"

definition py_in :: "string \<Rightarrow> string \<Rightarrow> bool" where
  "py_in sub s = sublist sub s"

section \<open>Completion ports: the router\<close>

text \<open>
  \<^verbatim>\<open>Router.forward\<close> (agent/dspy\_signatures.py). The language model behind
  \<^verbatim>\<open>self.classify\<close> is external; the model takes the free-text label it returned
  (\<^verbatim>\<open>result.route\<close>) as the argument.
\<close>

definition Router_forward :: "string \<Rightarrow> string" where
  "Router_forward result_route =
     (let route = strip (lower result_route) in
      if py_in ''hybrid'' route then ''hybrid''
      else if py_in ''sql'' route then ''sql''
      else if py_in ''rag'' route then ''rag''
      else ''hybrid'')"

text \<open>
  A label mentions a word when some contiguous piece of the label is the word written
  in any mixture of upper and lower case.
\<close>

definition mentions :: "string \<Rightarrow> string \<Rightarrow> bool" where
  "mentions label word = (\<exists>pre w suf. label = pre @ w @ suf \<and> lower w = word)"

section \<open>Document ranker\<close>

text \<open>
  agent/rag/retrieval.py. A \<^verbatim>\<open>Chunk\<close> has the attributes \<^verbatim>\<open>id\<close>, \<^verbatim>\<open>content\<close> and
  \<^verbatim>\<open>source\<close>; a search result is a dictionary with the keys \<^verbatim>\<open>id\<close>, \<^verbatim>\<open>content\<close>,
  \<^verbatim>\<open>source\<close> and \<^verbatim>\<open>score\<close>, always all four, so it is a record too.
\<close>

record Chunk =
  chunk_id :: string
  chunk_content :: string
  chunk_source :: string

record doc =
  doc_id :: string
  doc_content :: string
  doc_source :: string
  doc_score :: rat

text \<open>
  The retriever object has the attributes \<^verbatim>\<open>chunks\<close> (in load order),
  \<^verbatim>\<open>vectorizer\<close> and \<^verbatim>\<open>vectors\<close>. The vectorizer is scikit-learn's
  \<^verbatim>\<open>TfidfVectorizer\<close>, an object whose fitted state is its vocabulary and its inverse
  document frequencies; \<^verbatim>\<open>vectors\<close> is the matrix that \<^verbatim>\<open>fit_transform\<close> returned, one
  row per chunk, read here by row index. Numbers are the exact values of Python's
  floating point numbers.
\<close>

type_synonym vector = "rat list"

record TfidfVectorizer =
  vocabulary :: "string list"
  idf :: "rat list"

text \<open>
  The library functions that \<^verbatim>\<open>search\<close> calls are fields of the record as well:
  \<open>transform\<close> is the method \<^verbatim>\<open>TfidfVectorizer.transform\<close> on one query, returning the
  query vector and the vectorizer object after the call; \<open>cosine\<close> is one entry of
  \<^verbatim>\<open>cosine_similarity\<close>; \<open>tie_rank\<close> stands for what numpy's sort does with equal
  entries (see \<open>argsort\<close>).
\<close>

record Retriever =
  chunks :: "Chunk list"
  vectorizer :: TfidfVectorizer
  vectors :: "nat \<Rightarrow> vector"
  transform :: "TfidfVectorizer \<Rightarrow> string \<Rightarrow> vector \<times> TfidfVectorizer"
  cosine :: "vector \<Rightarrow> vector \<Rightarrow> rat"
  tie_rank :: "rat list \<Rightarrow> nat \<Rightarrow> nat"

text \<open>
  \<^verbatim>\<open>np.argsort(a)\<close> with the default kind: the indices of \<open>a\<close> in ascending order of
  their values. The default sort is not stable, so the order among entries of equal
  value is whatever the installed numpy produces on that array; \<open>tie a i\<close> is the rank it
  gives index \<open>i\<close> among the entries equal to \<open>a ! i\<close>. Every order of the indices that is
  ascending in the values arises from some \<open>tie\<close> (lemma \<open>argsort_any_order\<close>).
\<close>

definition argsort :: "(rat list \<Rightarrow> nat \<Rightarrow> nat) \<Rightarrow> rat list \<Rightarrow> nat list" where
  "argsort tie a = sort_key (\<lambda>i. a ! i) (sort_key (tie a) [0..<length a])"

text \<open>
  The slice \<^verbatim>\<open>xs[start:]\<close>: a negative start counts from the end, and a start outside
  the sequence is clipped to it.
\<close>

definition slice_from :: "int \<Rightarrow> 'a list \<Rightarrow> 'a list" where
  "slice_from start xs =
     (let n = int (length xs);
          s = (if start < 0 then max 0 (start + n) else min start n)
      in drop (nat s) xs)"

text \<open>
  \<^verbatim>\<open>Retriever.search\<close> as a method call: it returns the results and the retriever
  object after the call. The only attribute that can differ afterwards is the
  vectorizer, through its \<^verbatim>\<open>transform\<close> method.
\<close>

definition search_call :: "string \<Rightarrow> int \<Rightarrow> Retriever \<Rightarrow> doc list \<times> Retriever" where
  "search_call query top_k r =
     (if chunks r = [] then ([], r)
      else
        let (query_vec, vz) = transform r (vectorizer r) query;
            r1 = r\<lparr>vectorizer := vz\<rparr>;
            sims = map (\<lambda>idx. cosine r1 query_vec (vectors r1 idx)) [0..<length (chunks r1)];
            top = rev (slice_from (- top_k) (argsort (tie_rank r1) sims));
            results =
              map (\<lambda>idx.
                     let chunk = chunks r1 ! idx in
                     \<lparr>doc_id = chunk_id chunk, doc_content = chunk_content chunk,
                      doc_source = chunk_source chunk, doc_score = sims ! idx\<rparr>)
                top
        in (results, r1))"

definition search :: "Retriever \<Rightarrow> string \<Rightarrow> int \<Rightarrow> doc list" where
  "search r query top_k = fst (search_call query top_k r)"

text \<open>The local variables of \<^verbatim>\<open>search\<close>, as functions of the retriever and the query.\<close>

definition query_vector :: "Retriever \<Rightarrow> string \<Rightarrow> vector" where
  "query_vector r query = fst (transform r (vectorizer r) query)"

definition similarity :: "Retriever \<Rightarrow> string \<Rightarrow> nat \<Rightarrow> rat" where
  "similarity r query idx = cosine r (query_vector r query) (vectors r idx)"

definition similarities :: "Retriever \<Rightarrow> string \<Rightarrow> rat list" where
  "similarities r query = map (similarity r query) [0..<length (chunks r)]"

definition top_indices :: "Retriever \<Rightarrow> string \<Rightarrow> int \<Rightarrow> nat list" where
  "top_indices r query top_k =
     rev (slice_from (- top_k) (argsort (tie_rank r) (similarities r query)))"

definition result_of :: "Retriever \<Rightarrow> string \<Rightarrow> nat \<Rightarrow> doc" where
  "result_of r query idx =
     (let chunk = chunks r ! idx in
      \<lparr>doc_id = chunk_id chunk, doc_content = chunk_content chunk,
       doc_source = chunk_source chunk, doc_score = similarities r query ! idx\<rparr>)"

text \<open>
  Small corpora for concrete runs. Their vectors have one component, the query vector is
  \<open>[1]\<close> and the similarity is the product of the components; \<open>transform\<close> leaves the
  vectorizer as it is, and equal entries keep their index order in the sort, as numpy
  leaves them on arrays this small. In \<open>tie_retriever\<close> both similarities are 0; in
  \<open>graded_retriever\<close> the first and the third chunk tie at the top. In \<open>refitting_retriever\<close>
  the \<open>transform\<close> method changes the vectorizer, as a call of \<^verbatim>\<open>fit_transform\<close> would.
\<close>

definition dot :: "vector \<Rightarrow> vector \<Rightarrow> rat" where
  "dot u v = sum_list (map2 (*) u v)"

definition no_vocabulary :: TfidfVectorizer where
  "no_vocabulary = \<lparr>vocabulary = [], idf = []\<rparr>"

definition empty_retriever :: Retriever where
  "empty_retriever =
     \<lparr>chunks = [], vectorizer = no_vocabulary, vectors = (\<lambda>idx. []),
      transform = (\<lambda>vz query. ([1], vz)), cosine = dot, tie_rank = (\<lambda>a i. 0)\<rparr>"

definition tie_retriever :: Retriever where
  "tie_retriever =
     \<lparr>chunks =
        [\<lparr>chunk_id = ''policy::chunk0'', chunk_content = ''Returns within 30 days.'',
          chunk_source = ''policy''\<rparr>,
         \<lparr>chunk_id = ''policy::chunk1'', chunk_content = ''Opened items are final.'',
          chunk_source = ''policy''\<rparr>],
      vectorizer = no_vocabulary,
      vectors = (\<lambda>idx. [0]),
      transform = (\<lambda>vz query. ([1], vz)), cosine = dot, tie_rank = (\<lambda>a i. 0)\<rparr>"

definition graded_retriever :: Retriever where
  "graded_retriever =
     \<lparr>chunks =
        [\<lparr>chunk_id = ''kpi::chunk0'', chunk_content = ''AOV is revenue per order.'',
          chunk_source = ''kpi''\<rparr>,
         \<lparr>chunk_id = ''kpi::chunk1'', chunk_content = ''Gross margin.'',
          chunk_source = ''kpi''\<rparr>,
         \<lparr>chunk_id = ''kpi::chunk2'', chunk_content = ''Revenue per order, again.'',
          chunk_source = ''kpi''\<rparr>,
         \<lparr>chunk_id = ''kpi::chunk3'', chunk_content = ''Orders and revenue.'',
          chunk_source = ''kpi''\<rparr>],
      vectorizer = no_vocabulary,
      vectors = (\<lambda>idx. [[1 / 2, 0, 1 / 2, 1 / 4] ! idx]),
      transform = (\<lambda>vz query. ([1], vz)), cosine = dot, tie_rank = (\<lambda>a i. 0)\<rparr>"

definition refitting_retriever :: Retriever where
  "refitting_retriever =
     graded_retriever
       \<lparr>transform :=
          (\<lambda>vz query. ([of_nat (length (vocabulary vz))], vz\<lparr>vocabulary := query # vocabulary vz\<rparr>))\<rparr>"

section \<open>Python values, dictionaries and exceptions\<close>

text \<open>
  An exception that the code can raise is a value of \<open>error\<close>; a computation that can
  raise returns \<open>error + 'a\<close>, with \<open>Inl\<close> for the exception.
\<close>

datatype error =
    KeyError string
  | IndexError
  | AttributeError
  | ValueError
  | TypeError
  | JSONDecodeError
  | GraphRecursionError

text \<open>A value of a SQLite column, and a result row \<^verbatim>\<open>dict(zip(columns, row))\<close>.\<close>

datatype sqlval = SNull | SInt int | SReal rat | SText string | SBlob string

type_synonym row = "(string \<times> sqlval) list"

text \<open>
  The values stored in the \<^verbatim>\<open>sql_results\<close> dictionary, and the dictionary itself:
  an association list in insertion order with one entry per key.
\<close>

datatype pyval = PNone | PBool bool | PStr string | PStrs "string list" | PRows "row list"

type_synonym pydict = "(string \<times> pyval) list"

fun truthy :: "pyval \<Rightarrow> bool" where
  "truthy PNone = False"
| "truthy (PBool b) = b"
| "truthy (PStr s) = (s \<noteq> [])"
| "truthy (PStrs xs) = (xs \<noteq> [])"
| "truthy (PRows rs) = (rs \<noteq> [])"

fun py_len :: "pyval \<Rightarrow> error + nat" where
  "py_len (PStr s) = Inr (length s)"
| "py_len (PStrs xs) = Inr (length xs)"
| "py_len (PRows rs) = Inr (length rs)"
| "py_len PNone = Inl TypeError"
| "py_len (PBool b) = Inl TypeError"

definition getitem :: "(string \<times> 'v) list \<Rightarrow> string \<Rightarrow> error + 'v" where
  "getitem d k = (case map_of d k of None \<Rightarrow> Inl (KeyError k) | Some v \<Rightarrow> Inr v)"

definition dict_of_pairs :: "(string \<times> 'v) list \<Rightarrow> (string \<times> 'v) list" where
  "dict_of_pairs kvs = foldl (\<lambda>d (k, v). AList.update k v d) [] kvs"

text \<open>JSON documents, the values of \<^verbatim>\<open>json.loads\<close>.\<close>

datatype json =
    JNull
  | JBool bool
  | JInt int
  | JNum rat
  | JStr string
  | JArr "json list"
  | JObj "(string \<times> json) list"

text \<open>The final answer has type \<^verbatim>\<open>Any\<close>: these are the values the parser produces.\<close>

datatype answer = ANone | AInt int | AFloat rat | AStr string | AJson json

subsection \<open>More string functions\<close>

definition isdigit :: "char \<Rightarrow> bool" where
  "isdigit c = (c \<in> set ''0123456789'')"

definition py_join :: "string \<Rightarrow> string list \<Rightarrow> string" where
  "py_join sep xs = (case xs of [] \<Rightarrow> [] | y # ys \<Rightarrow> foldl (\<lambda>acc x. acc @ sep @ x) y ys)"

text \<open>
  \<^verbatim>\<open>s.split(sep)\<close> for a non-empty separator: the pieces between the occurrences of
  \<open>sep\<close>, found from left to right without overlap. \<open>acc\<close> is the current piece,
  reversed.
\<close>

fun split_from :: "string \<Rightarrow> string \<Rightarrow> string \<Rightarrow> string list" where
  "split_from sep acc [] = [rev acc]"
| "split_from sep acc (c # cs) =
     (if sep \<noteq> [] \<and> prefix sep (c # cs)
      then rev acc # split_from sep [] (drop (length sep - 1) cs)
      else split_from sep (c # acc) cs)"

definition split :: "string \<Rightarrow> string \<Rightarrow> string list" where
  "split s sep = split_from sep [] s"

definition startswith :: "string \<Rightarrow> string \<Rightarrow> bool" where
  "startswith s p = prefix p s"

text \<open>
  \<^verbatim>\<open>re.search(r'\d+', s)\<close> and \<^verbatim>\<open>re.search(r'[\d.]+', s)\<close>: the first maximal run of
  characters of the class, \<open>None\<close> when \<open>s\<close> has no such character.
\<close>

definition search_run :: "(char \<Rightarrow> bool) \<Rightarrow> string \<Rightarrow> string option" where
  "search_run cls s =
     (let m = takeWhile cls (dropWhile (\<lambda>c. \<not> cls c) s) in if m = [] then None else Some m)"

definition digit_val :: "char \<Rightarrow> nat" where
  "digit_val c = (case map_of (zip ''0123456789'' [0, 1, 2, 3, 4, 5, 6, 7, 8, 9]) c of
                   Some d \<Rightarrow> d | None \<Rightarrow> 0)"

definition nat_of_digits :: "string \<Rightarrow> nat" where
  "nat_of_digits ds = foldl (\<lambda>n c. 10 * n + digit_val c) 0 ds"

subsection \<open>Floating point numbers\<close>

text \<open>
  A Python \<^verbatim>\<open>float\<close> is an IEEE 754 binary64 number. The model holds its exact value, a
  rational, and every arithmetic operation rounds the exact result to the nearest
  binary64 number, a tie going to the even significand: \<open>double\<close>. For a positive \<open>x\<close>,
  \<open>binade x\<close> is the exponent \<open>e\<close> with \<open>2^e \<le> x < 2^(e+1)\<close>; the spacing of the binary64
  numbers there is \<open>2^(e-52)\<close>, and \<open>2^(-1074)\<close> below the normal range. Overflow to
  infinity (beyond about \<open>1.8e308\<close>) is outside the model.
\<close>

fun bit_length :: "nat \<Rightarrow> nat" where
  "bit_length n = (if n = 0 then 0 else Suc (bit_length (n div 2)))"

declare bit_length.simps [simp del]

definition binade :: "rat \<Rightarrow> int" where
  "binade x =
     (if 1 \<le> x then int (bit_length (nat \<lfloor>x\<rfloor>)) - 1
      else - int (bit_length (nat (\<lceil>1 / x\<rceil> - 1))))"

definition pow2 :: "int \<Rightarrow> rat" where
  "pow2 e = (if 0 \<le> e then 2 ^ nat e else 1 / 2 ^ nat (- e))"

definition round_half_even :: "rat \<Rightarrow> int" where
  "round_half_even y =
     (let f = \<lfloor>y\<rfloor>; d = y - of_int f in
      if d < 1 / 2 then f else if 1 / 2 < d then f + 1 else if even f then f else f + 1)"

definition double :: "rat \<Rightarrow> rat" where
  "double x =
     (if x = 0 then 0
      else
        let e = max (binade \<bar>x\<bar>) (- 1022);
            q = pow2 (e - 52)
        in of_int (round_half_even (x / q)) * q)"

definition fadd :: "rat \<Rightarrow> rat \<Rightarrow> rat" where
  "fadd x y = double (x + y)"

definition fsub :: "rat \<Rightarrow> rat \<Rightarrow> rat" where
  "fsub x y = double (x - y)"

definition fmul :: "rat \<Rightarrow> rat \<Rightarrow> rat" where
  "fmul x y = double (x * y)"

definition fdiv :: "rat \<Rightarrow> rat \<Rightarrow> rat" where
  "fdiv x y = double (x / y)"

text \<open>
  \<^verbatim>\<open>float(m)\<close> for a text of digits and dots: a number when \<open>m\<close> has a digit and at most
  one dot, a \<^verbatim>\<open>ValueError\<close> otherwise. The value is the binary64 number nearest to the
  decimal.
\<close>

definition py_float :: "string \<Rightarrow> error + rat" where
  "py_float m =
     (let ip = takeWhile isdigit m; rest = dropWhile isdigit m in
      case rest of
        [] \<Rightarrow> if ip = [] then Inl ValueError else Inr (double (of_nat (nat_of_digits ip)))
      | c # fp \<Rightarrow>
          if c = CHR ''.'' \<and> list_all isdigit fp \<and> (ip \<noteq> [] \<or> fp \<noteq> [])
          then Inr (double
                 (of_nat (nat_of_digits ip) + of_nat (nat_of_digits fp) / 10 ^ length fp))
          else Inl ValueError)"

text \<open>
  \<^verbatim>\<open>round(x, 2)\<close> on a float: the exact value of \<open>x\<close> is rounded to the nearest multiple
  of 0.01, a tie going to the even multiple, and the result is the binary64 number
  nearest to that decimal.
\<close>

definition py_round2 :: "rat \<Rightarrow> rat" where
  "py_round2 x = double (of_int (round_half_even (x * 100)) / 100)"

text \<open>\<^verbatim>\<open>re.findall(r'\d{4}-\d{2}-\d{2}', s)\<close>, counted.\<close>

fun match_date :: "string \<Rightarrow> bool" where
  "match_date (y1 # y2 # y3 # y4 # h1 # m1 # m2 # h2 # d1 # d2 # rest) =
     (isdigit y1 \<and> isdigit y2 \<and> isdigit y3 \<and> isdigit y4 \<and> h1 = CHR ''-'' \<and> isdigit m1
      \<and> isdigit m2 \<and> h2 = CHR ''-'' \<and> isdigit d1 \<and> isdigit d2)"
| "match_date s = False"

fun count_dates :: "string \<Rightarrow> nat" where
  "count_dates [] = 0"
| "count_dates (c # cs) =
     (if match_date (c # cs) then Suc (count_dates (drop 9 cs)) else count_dates cs)"

section \<open>Corpus loader\<close>

text \<open>
  \<^verbatim>\<open>Retriever._load_documents\<close>, on the directory listing given as pairs of a file name
  and the file's content. \<^verbatim>\<open>s.replace(old, new)\<close> for a non-empty \<open>old\<close> joins the
  pieces of \<^verbatim>\<open>s.split(old)\<close> with \<open>new\<close>; \<open>str_nat\<close> is the decimal numeral that the
  f-string writes for the paragraph index. Fitting the vectorizer is scikit-learn's and
  stays outside.
\<close>

definition endswith :: "string \<Rightarrow> string \<Rightarrow> bool" where
  "endswith s p = suffix p s"

definition replace :: "string \<Rightarrow> string \<Rightarrow> string \<Rightarrow> string" where
  "replace s old new = py_join new (split s old)"

fun str_nat :: "nat \<Rightarrow> string" where
  "str_nat n =
     (if n < 10 then [''0123456789'' ! n]
      else str_nat (n div 10) @ [''0123456789'' ! (n mod 10)])"

declare str_nat.simps [simp del]

definition chunks_of_file :: "string \<Rightarrow> string \<Rightarrow> Chunk list" where
  "chunks_of_file filename content =
     (let paragraphs = map strip (filter (\<lambda>p. strip p \<noteq> []) (split content ''\<newline>\<newline>''));
          source_name = replace filename ''.md'' []
      in map (\<lambda>(i, para).
                \<lparr>chunk_id = source_name @ ''::chunk'' @ str_nat i, chunk_content = para,
                 chunk_source = source_name\<rparr>)
           (enumerate 0 paragraphs))"

definition load_documents :: "(string \<times> string) list \<Rightarrow> Chunk list" where
  "load_documents files =
     concat (map (\<lambda>(filename, content).
                    if endswith filename ''.md'' then chunks_of_file filename content else [])
               files)"

section \<open>The agent and its collaborators\<close>

text \<open>
  The workflow state \<^verbatim>\<open>AgentState\<close> (agent/graph\_hybrid.py). \<^verbatim>\<open>run\<close> creates the
  state with all twelve keys, so the state is a record; \<^verbatim>\<open>sql_results\<close> is a dictionary whose keys vary. Each
  constructor of \<open>trace_entry\<close> stands for one of the formatted trace lines.
\<close>

datatype trace_entry =
    TRouted string
  | TRetrieved nat
  | TPlanner nat string
  | TGenerated string
  | TSqlSuccess nat
  | TSqlError pyval
  | TRepair nat string
  | TSynthesized answer

record AgentState =
  question :: string
  format_hint :: string
  route :: string
  retrieved_docs :: "doc list"
  sql :: string
  sql_results :: pydict
  final_answer :: answer
  explanation :: string
  citations :: "string list"
  confidence :: rat
  repair_count :: nat
  trace :: "trace_entry list"

text \<open>
  What a run does to the outside: the SQL statements handed to the relational engine, in
  order, and the number of completions requested from the language model.
\<close>

record effects =
  db_log :: "string list"
  lm_calls :: nat

text \<open>
  The attributes of \<^verbatim>\<open>HybridAgent\<close>, with the external services as functions. A
  language model completion takes the number of earlier completions, so that two
  requests with the same fields may be answered differently; the relational engine
  takes the statements executed before. \<open>cursor_execute\<close> is \<^verbatim>\<open>cursor.execute\<close> followed
  by \<^verbatim>\<open>fetchall\<close> and the column names of \<^verbatim>\<open>cursor.description\<close>: \<open>Inl\<close> carries the
  text of the exception. \<open>json_loads\<close> and \<open>json_dumps\<close> are Python's \<^verbatim>\<open>json\<close> module: \<open>None\<close> is
  the \<^verbatim>\<open>JSONDecodeError\<close> of the one and the \<^verbatim>\<open>TypeError\<close> of the other on a value
  that has no JSON form, such as a BLOB.
  \<open>float_sum\<close> is the built-in \<^verbatim>\<open>sum\<close> on a sequence of floats, whose rounding depends
  on the interpreter: additions from left to right before Python 3.12 (\<open>sum_left\<close>), a
  compensated summation since.
\<close>

record HybridAgent =
  retriever :: Retriever
  schema :: string
  classify :: "nat \<Rightarrow> string \<Rightarrow> string"
  generate :: "nat \<Rightarrow> string \<Rightarrow> string \<Rightarrow> string \<Rightarrow> string"
  repair :: "nat \<Rightarrow> string \<Rightarrow> pyval \<Rightarrow> string \<Rightarrow> string"
  synth :: "nat \<Rightarrow> string \<Rightarrow> string \<Rightarrow> string \<Rightarrow> string \<Rightarrow> string \<times> string"
  cursor_execute :: "string list \<Rightarrow> string \<Rightarrow> string + (string list \<times> sqlval list list)"
  json_loads :: "string \<Rightarrow> json option"
  json_dumps :: "pyval \<Rightarrow> string option"
  float_sum :: "rat list \<Rightarrow> rat"

definition sum_left :: "rat list \<Rightarrow> rat" where
  "sum_left xs = foldl fadd 0 xs"

subsection \<open>Relational adapter\<close>

text \<open>\<^verbatim>\<open>SQLiteTool.execute_query\<close> (agent/tools/sqlite\_tool.py).\<close>

definition execute_query :: "HybridAgent \<Rightarrow> string list \<Rightarrow> string \<Rightarrow> pydict" where
  "execute_query a executed sql_text =
     (case cursor_execute a executed sql_text of
        Inr (columns, rows) \<Rightarrow>
          [(''success'', PBool True),
           (''columns'', PStrs columns),
           (''rows'', PRows (map (\<lambda>r. dict_of_pairs (zip columns r)) rows)),
           (''error'', PNone)]
      | Inl e \<Rightarrow>
          [(''success'', PBool False),
           (''columns'', PStrs []),
           (''rows'', PRows []),
           (''error'', PStr e)])"

subsection \<open>Completion ports\<close>

text \<open>
  \<^verbatim>\<open>NLToSQL.forward\<close>, \<^verbatim>\<open>SQLRepair.forward\<close> and \<^verbatim>\<open>Synthesizer.forward\<close>
  (agent/dspy\_signatures.py). Indexing the pieces of a split at 1 raises
  \<^verbatim>\<open>IndexError\<close> when there is no second piece.
\<close>

definition second_piece :: "string list \<Rightarrow> error + string" where
  "second_piece pieces = (case pieces of _ # p # _ \<Rightarrow> Inr p | _ \<Rightarrow> Inl IndexError)"

definition NLToSQL_forward ::
  "HybridAgent \<Rightarrow> nat \<Rightarrow> string \<Rightarrow> string \<Rightarrow> string \<Rightarrow> error + string" where
  "NLToSQL_forward a n question_text schema_text context =
     (let sql0 = strip (generate a n question_text schema_text context) in
      if py_in ''```'' sql0 then
        (case second_piece (split sql0 ''```'') of
           Inl e \<Rightarrow> Inl e
         | Inr sql1 \<Rightarrow>
             Inr (strip (if startswith sql1 ''sql\<newline>'' then drop 4 sql1 else sql1)))
      else Inr sql0)"

definition SQLRepair_forward ::
  "HybridAgent \<Rightarrow> nat \<Rightarrow> string \<Rightarrow> pyval \<Rightarrow> string \<Rightarrow> error + string" where
  "SQLRepair_forward a n original_sql err schema_text =
     (let sql0 = strip (repair a n original_sql err schema_text) in
      if py_in ''```'' sql0 then
        (case second_piece (split sql0 ''```'') of
           Inl e \<Rightarrow> Inl e
         | Inr sql1 \<Rightarrow>
             Inr (strip (if startswith sql1 ''sql\<newline>'' then drop 4 sql1 else sql1)))
      else Inr sql0)"

definition Synthesizer_forward ::
  "HybridAgent \<Rightarrow> nat \<Rightarrow> string \<Rightarrow> string \<Rightarrow> string \<Rightarrow> string \<Rightarrow> string \<times> string" where
  "Synthesizer_forward a n question_text hint doc_context sql_results_str =
     (case synth a n question_text hint doc_context sql_results_str of
        (ans, expl) \<Rightarrow> (strip ans, strip expl))"

section \<open>Answer post-processor\<close>

text \<open>
  \<^verbatim>\<open>HybridAgent._parse_answer\<close>. \<open>parse_try\<close> is the body of the \<^verbatim>\<open>try\<close> statement,
  \<open>parse_fallback\<close> its handler; the handler catches every exception.
\<close>

definition parse_try :: "HybridAgent \<Rightarrow> string \<Rightarrow> string \<Rightarrow> error + answer" where
  "parse_try a ans hint =
     (if hint = ''int'' then
        (case search_run isdigit ans of
           None \<Rightarrow> Inl AttributeError
         | Some m \<Rightarrow> Inr (AInt (int (nat_of_digits m))))
      else if hint = ''float'' then
        (case search_run (\<lambda>c. isdigit c \<or> c = CHR ''.'') ans of
           None \<Rightarrow> Inr (AFloat 0)
         | Some m \<Rightarrow> (case py_float m of Inl e \<Rightarrow> Inl e | Inr x \<Rightarrow> Inr (AFloat (py_round2 x))))
      else if py_in ''list['' hint then
        (case json_loads a ans of None \<Rightarrow> Inl JSONDecodeError | Some j \<Rightarrow> Inr (AJson j))
      else if py_in ''{'' hint then
        (case json_loads a ans of None \<Rightarrow> Inl JSONDecodeError | Some j \<Rightarrow> Inr (AJson j))
      else Inr (AStr ans))"

definition parse_fallback :: "HybridAgent \<Rightarrow> string \<Rightarrow> answer" where
  "parse_fallback a ans = (case json_loads a ans of Some j \<Rightarrow> AJson j | None \<Rightarrow> AStr ans)"

definition unfence :: "string \<Rightarrow> error + string" where
  "unfence ans0 =
     (if py_in ''```'' ans0 then
        (case second_piece (split ans0 ''```'') of
           Inl e \<Rightarrow> Inl e
         | Inr ans1 \<Rightarrow>
             Inr (strip (if startswith ans1 ''json\<newline>'' then drop 5 ans1 else ans1)))
      else Inr ans0)"

definition parse_answer :: "HybridAgent \<Rightarrow> string \<Rightarrow> string \<Rightarrow> error + answer" where
  "parse_answer a ans hint =
     (case unfence (strip ans) of
        Inl e \<Rightarrow> Inl e
      | Inr ans1 \<Rightarrow>
          (case parse_try a ans1 hint of
             Inr v \<Rightarrow> Inr v
           | Inl _ \<Rightarrow> Inr (parse_fallback a ans1)))"

text \<open>
  \<^verbatim>\<open>HybridAgent._extract_citations\<close>. The relevance floor is the float 0.1.
  \<^verbatim>\<open>list(set(citations))\<close> keeps one copy of each citation, in an order Python leaves
  open; the model keeps the order of \<open>remdups\<close>.
\<close>

definition tables :: "string list" where
  "tables = [''Orders'', ''Order Details'', ''Products'', ''Customers'', ''Categories'', ''Suppliers'']"

definition doc_citations :: "doc list \<Rightarrow> string list" where
  "doc_citations docs = map doc_id (filter (\<lambda>d. double (1 / 10) < doc_score d) docs)"

definition table_citations :: "string \<Rightarrow> string list" where
  "table_citations sql_upper =
     filter (\<lambda>t. py_in (upper t) sql_upper \<or> py_in (''\"'' @ upper t @ ''\"'') sql_upper) tables"

definition extract_citations :: "AgentState \<Rightarrow> error + string list" where
  "extract_citations state =
     (case getitem (sql_results state) ''success'' of
        Inl e \<Rightarrow> Inl e
      | Inr success \<Rightarrow>
          Inr (remdups
                (doc_citations (retrieved_docs state)
                 @ (if truthy success \<and> sql state \<noteq> [] then table_citations (upper (sql state))
                    else []))))"

text \<open>
  \<^verbatim>\<open>HybridAgent._calculate_confidence\<close>, in floating point arithmetic: the literals
  are the binary64 numbers nearest to 0.5, 0.3, 0.2 and 0.1, and each operation rounds.
\<close>

definition success_and_rows :: "pydict \<Rightarrow> error + bool" where
  "success_and_rows results =
     (case getitem results ''success'' of
        Inl e \<Rightarrow> Inl e
      | Inr success \<Rightarrow>
          if truthy success then
            (case getitem results ''rows'' of Inl e \<Rightarrow> Inl e | Inr rows \<Rightarrow> Inr (truthy rows))
          else Inr False)"

definition calculate_confidence :: "HybridAgent \<Rightarrow> AgentState \<Rightarrow> error + rat" where
  "calculate_confidence a state =
     (let confidence = double (1 / 2) in
      case success_and_rows (sql_results state) of
        Inl e \<Rightarrow> Inl e
      | Inr good_sql \<Rightarrow>
          let confidence = (if good_sql then fadd confidence (double (3 / 10)) else confidence);
              confidence =
                (if retrieved_docs state \<noteq> [] then
                   let avg_score =
                         fdiv (float_sum a (map doc_score (retrieved_docs state)))
                           (of_nat (length (retrieved_docs state)))
                   in fadd confidence (fmul avg_score (double (2 / 10)))
                 else confidence);
              confidence =
                fsub confidence (fmul (of_nat (repair_count state)) (double (1 / 10)))
          in Inr (py_round2 (max 0 (min 1 confidence))))"

section \<open>Orchestration state machine\<close>

text \<open>
  The nodes of the graph built by \<^verbatim>\<open>HybridAgent._build_graph\<close>. A node takes the state
  and the effects so far and returns both updated, or the exception it raises.
\<close>

type_synonym config = "AgentState \<times> effects"

definition route_node :: "HybridAgent \<Rightarrow> config \<Rightarrow> error + config" where
  "route_node a = (\<lambda>(state, w).
     let r = Router_forward (classify a (lm_calls w) (question state)) in
     Inr (state\<lparr>route := r, trace := trace state @ [TRouted r]\<rparr>,
          w\<lparr>lm_calls := lm_calls w + 1\<rparr>))"

definition retriever_node :: "HybridAgent \<Rightarrow> config \<Rightarrow> error + config" where
  "retriever_node a = (\<lambda>(state, w).
     let (results, _) = search_call (question state) 3 (retriever a) in
     Inr (state\<lparr>retrieved_docs := results,
                trace := trace state @ [TRetrieved (length results)]\<rparr>, w))"

definition planner_node :: "HybridAgent \<Rightarrow> config \<Rightarrow> error + config" where
  "planner_node a = (\<lambda>(state, w).
     let doc_context = py_join ''\<newline>'' (map doc_content (retrieved_docs state));
         dates = count_dates doc_context
     in Inr (state\<lparr>trace := trace state @ [TPlanner dates (route state)]\<rparr>, w))"

definition should_query_sql :: "AgentState \<Rightarrow> string" where
  "should_query_sql state = (if route state \<in> set [''sql'', ''hybrid''] then ''sql'' else ''rag_only'')"

definition nl_to_sql_node :: "HybridAgent \<Rightarrow> config \<Rightarrow> error + config" where
  "nl_to_sql_node a = (\<lambda>(state, w).
     let doc_context = py_join ''\<newline>'' (map doc_content (retrieved_docs state)) in
     case NLToSQL_forward a (lm_calls w) (question state) (schema a) doc_context of
       Inl e \<Rightarrow> Inl e
     | Inr s \<Rightarrow>
         Inr (state\<lparr>sql := s, trace := trace state @ [TGenerated (take 100 s)]\<rparr>,
              w\<lparr>lm_calls := lm_calls w + 1\<rparr>))"

definition executor_node :: "HybridAgent \<Rightarrow> config \<Rightarrow> error + config" where
  "executor_node a = (\<lambda>(state, w).
     if sql state = [] then
       Inr (state\<lparr>sql_results :=
                    [(''success'', PBool True), (''rows'', PRows []), (''columns'', PStrs [])]\<rparr>,
            w)
     else
       let result = execute_query a (db_log w) (sql state);
           w1 = w\<lparr>db_log := db_log w @ [sql state]\<rparr>;
           state1 = state\<lparr>sql_results := result\<rparr>
       in case getitem result ''success'' of
            Inl e \<Rightarrow> Inl e
          | Inr success \<Rightarrow>
              if truthy success then
                (case getitem result ''rows'' of
                   Inl e \<Rightarrow> Inl e
                 | Inr rows \<Rightarrow>
                     (case py_len rows of
                        Inl e \<Rightarrow> Inl e
                      | Inr n \<Rightarrow> Inr (state1\<lparr>trace := trace state1 @ [TSqlSuccess n]\<rparr>, w1)))
              else
                (case getitem result ''error'' of
                   Inl e \<Rightarrow> Inl e
                 | Inr err \<Rightarrow> Inr (state1\<lparr>trace := trace state1 @ [TSqlError err]\<rparr>, w1)))"

definition should_repair :: "AgentState \<Rightarrow> error + string" where
  "should_repair state =
     (if 2 \<le> repair_count state then Inr ''synthesize''
      else
        case getitem (sql_results state) ''success'' of
          Inl e \<Rightarrow> Inl e
        | Inr success \<Rightarrow> if \<not> truthy success then Inr ''repair'' else Inr ''synthesize'')"

definition repair_node :: "HybridAgent \<Rightarrow> config \<Rightarrow> error + config" where
  "repair_node a = (\<lambda>(state, w).
     let state1 = state\<lparr>repair_count := repair_count state + 1\<rparr> in
     case getitem (sql_results state1) ''error'' of
       Inl e \<Rightarrow> Inl e
     | Inr err \<Rightarrow>
         (case SQLRepair_forward a (lm_calls w) (sql state1) err (schema a) of
            Inl e \<Rightarrow> Inl e
          | Inr fixed_sql \<Rightarrow>
              Inr (state1\<lparr>sql := fixed_sql,
                          trace := trace state1
                            @ [TRepair (repair_count state1) (take 100 fixed_sql)]\<rparr>,
                   w\<lparr>lm_calls := lm_calls w + 1\<rparr>)))"

definition synthesizer_node :: "HybridAgent \<Rightarrow> config \<Rightarrow> error + config" where
  "synthesizer_node a = (\<lambda>(state, w).
     let doc_context =
           py_join ''\<newline>'' (map (\<lambda>d. doc_id d @ '': '' @ doc_content d) (retrieved_docs state))
     in case getitem (sql_results state) ''success'' of
          Inl e \<Rightarrow> Inl e
        | Inr success \<Rightarrow>
            (case (if truthy success then
                     (case getitem (sql_results state) ''rows'' of
                        Inl e \<Rightarrow> Inl e
                      | Inr rows \<Rightarrow>
                          (case json_dumps a rows of
                             None \<Rightarrow> Inl TypeError
                           | Some text \<Rightarrow> Inr text))
                   else Inr [])
             of
               Inl e \<Rightarrow> Inl e
             | Inr sql_results_str \<Rightarrow>
                 (case Synthesizer_forward a (lm_calls w) (question state) (format_hint state)
                         doc_context sql_results_str
                  of (answer_raw, expl) \<Rightarrow>
                    (case parse_answer a answer_raw (format_hint state) of
                       Inl e \<Rightarrow> Inl e
                     | Inr ans \<Rightarrow>
                         (case extract_citations state of
                            Inl e \<Rightarrow> Inl e
                          | Inr cites \<Rightarrow>
                              (case calculate_confidence a state of
                                 Inl e \<Rightarrow> Inl e
                               | Inr conf \<Rightarrow>
                                   Inr (state\<lparr>final_answer := ans, explanation := expl,
                                               citations := cites, confidence := conf,
                                               trace := trace state @ [TSynthesized ans]\<rparr>,
                                        w\<lparr>lm_calls := lm_calls w + 1\<rparr>)))))))"

text \<open>
  The compiled graph: the entry point is the router; the planner and the executor have
  conditional edges. \<^verbatim>\<open>graph.invoke\<close> runs node after node until \<open>END\<close> and raises
  \<^verbatim>\<open>GraphRecursionError\<close> when the recursion limit of the graph library (25 steps by
  default) is used up first. The nodes \<^verbatim>\<open>retriever\<close> and \<^verbatim>\<open>repair\<close> are \<open>retriever_n\<close>
  and \<open>repair_n\<close> here, the plain names being attributes of the agent.
\<close>

datatype node = router | retriever_n | planner | nl_to_sql | executor | synthesizer | repair_n | END

definition step :: "HybridAgent \<Rightarrow> node \<times> config \<Rightarrow> error + node \<times> config" where
  "step a = (\<lambda>(n, c).
     case n of
       router \<Rightarrow> (case route_node a c of Inl e \<Rightarrow> Inl e | Inr c' \<Rightarrow> Inr (retriever_n, c'))
     | retriever_n \<Rightarrow> (case retriever_node a c of Inl e \<Rightarrow> Inl e | Inr c' \<Rightarrow> Inr (planner, c'))
     | planner \<Rightarrow>
         (case planner_node a c of
            Inl e \<Rightarrow> Inl e
          | Inr c' \<Rightarrow>
              Inr (if should_query_sql (fst c') = ''sql'' then nl_to_sql else synthesizer, c'))
     | nl_to_sql \<Rightarrow> (case nl_to_sql_node a c of Inl e \<Rightarrow> Inl e | Inr c' \<Rightarrow> Inr (executor, c'))
     | executor \<Rightarrow>
         (case executor_node a c of
            Inl e \<Rightarrow> Inl e
          | Inr c' \<Rightarrow>
              (case should_repair (fst c') of
                 Inl e \<Rightarrow> Inl e
               | Inr d \<Rightarrow> Inr (if d = ''repair'' then repair_n else synthesizer, c')))
     | repair_n \<Rightarrow> (case repair_node a c of Inl e \<Rightarrow> Inl e | Inr c' \<Rightarrow> Inr (executor, c'))
     | synthesizer \<Rightarrow> (case synthesizer_node a c of Inl e \<Rightarrow> Inl e | Inr c' \<Rightarrow> Inr (END, c'))
     | END \<Rightarrow> Inr (END, c))"

fun invoke_from :: "HybridAgent \<Rightarrow> nat \<Rightarrow> node \<times> config \<Rightarrow> error + config" where
  "invoke_from a fuel (END, c) = Inr c"
| "invoke_from a 0 (n, c) = Inl GraphRecursionError"
| "invoke_from a (Suc fuel) (n, c) =
     (case step a (n, c) of Inl e \<Rightarrow> Inl e | Inr nc \<Rightarrow> invoke_from a fuel nc)"

definition recursion_limit :: nat where
  "recursion_limit = 25"

definition graph_invoke :: "HybridAgent \<Rightarrow> config \<Rightarrow> error + config" where
  "graph_invoke a c = invoke_from a recursion_limit (router, c)"

text \<open>The configuration after a number of steps from the entry point.\<close>

fun after_steps :: "HybridAgent \<Rightarrow> nat \<Rightarrow> config \<Rightarrow> error + node \<times> config" where
  "after_steps a 0 c = Inr (router, c)"
| "after_steps a (Suc k) c =
     (case after_steps a k c of Inl e \<Rightarrow> Inl e | Inr nc \<Rightarrow> step a nc)"

text \<open>\<^verbatim>\<open>HybridAgent.run\<close>: the initial state, the invocation, and the result dictionary.\<close>

record RunResult =
  res_final_answer :: answer
  res_sql :: string
  res_confidence :: rat
  res_explanation :: string
  res_citations :: "string list"
  res_trace :: "trace_entry list"

definition initial_state :: "string \<Rightarrow> string \<Rightarrow> AgentState" where
  "initial_state question_text hint =
     \<lparr>question = question_text, format_hint = hint, route = [], retrieved_docs = [],
      sql = [], sql_results = [], final_answer = ANone, explanation = [], citations = [],
      confidence = 0, repair_count = 0, trace = []\<rparr>"

definition run :: "HybridAgent \<Rightarrow> string \<Rightarrow> string \<Rightarrow> effects \<Rightarrow> error + RunResult \<times> effects" where
  "run a question_text hint w =
     (case graph_invoke a (initial_state question_text hint, w) of
        Inl e \<Rightarrow> Inl e
      | Inr (final_state, w') \<Rightarrow>
          Inr (\<lparr>res_final_answer = final_answer final_state, res_sql = sql final_state,
                res_confidence = confidence final_state,
                res_explanation = explanation final_state,
                res_citations = citations final_state, res_trace = trace final_state\<rparr>, w'))"

text \<open>
  Concrete collaborators for sample runs: a language model that answers the router with
  a fixed label, generates one fixed statement and repairs by returning the statement
  unchanged; a relational engine that rejects every statement, and one that returns two
  rows.
\<close>

definition db_failing :: "string list \<Rightarrow> string \<Rightarrow> string + (string list \<times> sqlval list list)" where
  "db_failing executed s = Inl ''no such table: Ordrs''"

definition db_orders :: "string list \<Rightarrow> string \<Rightarrow> string + (string list \<times> sqlval list list)" where
  "db_orders executed s = Inr ([''OrderID''], [[SInt 10248], [SInt 10249]])"

definition demo_agent ::
  "string \<Rightarrow> string
   \<Rightarrow> (string list \<Rightarrow> string \<Rightarrow> string + (string list \<times> sqlval list list))
   \<Rightarrow> HybridAgent" where
  "demo_agent label statement db =
     \<lparr>retriever = graded_retriever,
      schema = ''Orders(OrderID INTEGER)'',
      classify = (\<lambda>n q. label),
      generate = (\<lambda>n q s c. statement),
      repair = (\<lambda>n s e c. s),
      synth = (\<lambda>n q h d r. (''2'', ''Two orders.'')),
      cursor_execute = db,
      json_loads = (\<lambda>s. None),
      json_dumps = (\<lambda>v. Some ''[]''),
      float_sum = sum_left\<rparr>"

definition no_effects :: effects where
  "no_effects = \<lparr>db_log = [], lm_calls = 0\<rparr>"

section \<open>Vocabulary of the properties\<close>

text \<open>
  An execution result counts as succeeded when its \<^verbatim>\<open>success\<close> entry is present and
  true, and as having rows when its \<^verbatim>\<open>rows\<close> entry is a non-empty list.
\<close>

definition succeeded :: "pydict \<Rightarrow> bool" where
  "succeeded results = (case map_of results ''success'' of Some v \<Rightarrow> truthy v | None \<Rightarrow> False)"

definition has_rows :: "pydict \<Rightarrow> bool" where
  "has_rows results = (case map_of results ''rows'' of Some v \<Rightarrow> truthy v | None \<Rightarrow> False)"

text \<open>
  The invariant of the repair cycle, and an upper bound on the number of steps from a
  node to \<open>END\<close> given the repair counter.
\<close>

definition repair_inv :: "node \<Rightarrow> AgentState \<Rightarrow> bool" where
  "repair_inv n state =
     (repair_count state \<le> 2
      \<and> (n = repair_n \<longrightarrow> repair_count state < 2 \<and> \<not> succeeded (sql_results state)))"

fun steps_left :: "node \<Rightarrow> nat \<Rightarrow> nat" where
  "steps_left router c = 10"
| "steps_left retriever_n c = 9"
| "steps_left planner c = 8"
| "steps_left nl_to_sql c = 7"
| "steps_left executor c = 6 - 2 * c"
| "steps_left repair_n c = 5 - 2 * c"
| "steps_left synthesizer c = 1"
| "steps_left END c = 0"

text \<open>
  The confidence score in the words of the specification: start at 0.5, add 0.3 for a
  successful execution with at least one row, add the average chunk score times 0.2 when
  chunks were retrieved, subtract 0.1 times the repair attempts, clamp to the unit
  interval and round to two decimals. The arithmetic is Python's, on floats, with the
  interpreter's summation given as \<open>summation\<close> for the average; \<open>unrounded_confidence\<close> is the value
  before the final rounding.
\<close>

definition unrounded_confidence :: "(rat list \<Rightarrow> rat) \<Rightarrow> bool \<Rightarrow> rat list \<Rightarrow> nat \<Rightarrow> rat" where
  "unrounded_confidence summation sql_ok scores repairs =
     (let start = double (1 / 2);
          with_sql = (if sql_ok then fadd start (double (3 / 10)) else start);
          with_docs =
            (if scores \<noteq> []
             then fadd with_sql
                    (fmul (fdiv (summation scores) (of_nat (length scores))) (double (2 / 10)))
             else with_sql)
      in max 0 (min 1 (fsub with_docs (fmul (of_nat repairs) (double (1 / 10))))))"

definition spec_confidence :: "(rat list \<Rightarrow> rat) \<Rightarrow> bool \<Rightarrow> rat list \<Rightarrow> nat \<Rightarrow> rat" where
  "spec_confidence summation sql_ok scores repairs =
     py_round2 (unrounded_confidence summation sql_ok scores repairs)"

section \<open>Properties of the router\<close>

lemma sublist_dropWhile:
  assumes "w \<noteq> []" "\<not> P (hd w)"
  shows "sublist w (dropWhile P s) = sublist w s"
  using assms by (induction s) (auto simp: sublist_Cons_right prefix_Cons neq_Nil_conv)

lemma sublist_strip:
  assumes "w \<noteq> []" "\<not> isspace (hd w)" "\<not> isspace (last w)"
  shows "sublist w (strip s) = sublist w s"
proof -
  have "sublist w (strip s) = sublist (rev w) (dropWhile isspace (rev (dropWhile isspace s)))"
    by (simp add: strip_def sublist_rev_right)
  also have "\<dots> = sublist (rev w) (rev (dropWhile isspace s))"
    using assms by (intro sublist_dropWhile) (simp_all add: hd_rev)
  also have "\<dots> = sublist w (dropWhile isspace s)"
    by (simp add: sublist_rev_right)
  also have "\<dots> = sublist w s"
    using assms by (intro sublist_dropWhile)
  finally show ?thesis .
qed

lemma py_in_lower_mentions: "py_in word (lower label) = mentions label word"
proof
  assume "py_in word (lower label)"
  then obtain ps ss where "map lower_char label = ps @ word @ ss"
    by (auto simp: py_in_def sublist_def lower_def)
  then obtain pre rest where l1: "label = pre @ rest" and "map lower_char rest = word @ ss"
    by (auto simp: map_eq_append_conv append_eq_map_conv)
  then obtain w suf where "rest = w @ suf" and "map lower_char w = word"
    by (auto simp: map_eq_append_conv append_eq_map_conv)
  with l1 show "mentions label word"
    by (auto simp: mentions_def lower_def)
next
  assume "mentions label word"
  then obtain pre w suf where "label = pre @ w @ suf" and "lower w = word"
    by (auto simp: mentions_def)
  then have "lower label = lower pre @ word @ lower suf"
    by (simp add: lower_def)
  then show "py_in word (lower label)"
    by (simp add: py_in_def)
qed

text \<open>
  Claim C3. Whatever label the Route completion port returns, the normalized route is one
  of \<open>hybrid\<close>, \<open>sql\<close> and \<open>rag\<close>: it is \<open>hybrid\<close> when the label mentions
  ``hybrid'' in any case and at any position, otherwise \<open>sql\<close> when it mentions ``sql'',
  otherwise \<open>rag\<close> when it mentions ``rag'', and \<open>hybrid\<close> when it mentions none of
  the three.
\<close>

theorem Router_forward_priority:
  "Router_forward label =
     (if mentions label ''hybrid'' then ''hybrid''
      else if mentions label ''sql'' then ''sql''
      else if mentions label ''rag'' then ''rag''
      else ''hybrid'')
   \<and> Router_forward label \<in> {''hybrid'', ''sql'', ''rag''}"
proof -
  have "py_in w (strip (lower label)) = mentions label w"
    if "w \<noteq> []" "\<not> isspace (hd w)" "\<not> isspace (last w)" for w
    using that by (simp add: py_in_def sublist_strip flip: py_in_lower_mentions)
  then have "py_in ''hybrid'' (strip (lower label)) = mentions label ''hybrid''"
    "py_in ''sql'' (strip (lower label)) = mentions label ''sql''"
    "py_in ''rag'' (strip (lower label)) = mentions label ''rag''"
    by (simp_all add: isspace_def whitespace_def)
  then show ?thesis
    by (simp add: Router_forward_def)
qed

section \<open>Properties of the document ranker\<close>

lemma sorted_argsort: "sorted (map (\<lambda>i. a ! i) (argsort tie a))"
  by (simp add: argsort_def)

lemma argsort_ascending: "sorted_wrt (\<lambda>i j. a ! i \<le> a ! j) (argsort tie a)"
  using sorted_argsort[of a tie] by (simp add: sorted_map)

text \<open>
  No ascending order of the indices is excluded: each is the \<open>argsort\<close> of some
  tie-breaking rank, the position of an index in that order.
\<close>

lemma position_nth:
  assumes "distinct p" "k < length p"
  shows "length (takeWhile (\<lambda>j. j \<noteq> p ! k) p) = k"
proof -
  have "takeWhile (\<lambda>j. j \<noteq> p ! k) p = take k p"
    using assms by (intro takeWhile_eq_take_P_nth) (auto simp: nth_eq_iff_index_eq)
  with assms(2) show ?thesis by simp
qed

lemma argsort_any_order:
  assumes "mset p = mset [0..<length a]" "sorted (map (\<lambda>i. a ! i) p)"
  shows "\<exists>tie. argsort tie a = p"
proof -
  define pos where "pos = (\<lambda>i. length (takeWhile (\<lambda>j. j \<noteq> i) p))"
  have dist: "distinct p"
    using assms(1) by (metis distinct_upt mset_eq_imp_distinct_iff)
  have setp: "set p = {0..<length a}"
    using assms(1) by (metis mset_eq_setD set_upt)
  have posmap: "map pos p = [0..<length p]"
    by (rule nth_equalityI) (simp_all add: pos_def position_nth[OF dist])
  have inj: "inj_on pos (set p)"
    by (metis posmap distinct_map distinct_upt)
  have "sort_key pos [0..<length a] = p"
  proof (rule map_sorted_distinct_set_unique[where f = pos])
    show "inj_on pos (set (sort_key pos [0..<length a]) \<union> set p)"
      using inj setp by simp
    show "sorted (map pos (sort_key pos [0..<length a]))"
      by simp
    show "distinct (map pos (sort_key pos [0..<length a]))"
      using inj setp by (simp add: distinct_map)
    show "sorted (map pos p)" "distinct (map pos p)"
      by (simp_all add: posmap)
    show "set (sort_key pos [0..<length a]) = set p"
      using setp by simp
  qed
  then have "argsort (\<lambda>_. pos) a = p"
    using assms(2) by (simp add: argsort_def sort_key_id_if_sorted)
  then show ?thesis by blast
qed

lemma set_argsort: "set (argsort tie a) = {0..<length a}"
  by (simp add: argsort_def)

lemma distinct_argsort: "distinct (argsort tie a)"
  by (simp add: argsort_def)

lemma length_argsort: "length (argsort tie a) = length a"
  by (simp add: argsort_def)

lemma slice_from_neg:
  assumes "1 \<le> k"
  shows "slice_from (- k) xs = drop (length xs - nat k) xs"
  using assms by (auto simp: slice_from_def Let_def max_def nat_diff_distrib' intro: arg_cong2[where f=drop])

lemma slice_from_zero: "slice_from 0 xs = xs"
  by (simp add: slice_from_def)

lemma slice_from_pos:
  assumes "0 \<le> s"
  shows "slice_from s xs = drop (nat s) xs"
  using assms by (auto simp: slice_from_def Let_def min_def)

lemma length_slice_from: "length (slice_from s xs) \<le> length xs"
  by (simp add: slice_from_def Let_def)

lemma set_slice_from: "set (slice_from s xs) \<subseteq> set xs"
  by (simp add: slice_from_def Let_def set_drop_subset)

lemma length_similarities: "length (similarities r q) = length (chunks r)"
  by (simp add: similarities_def)

lemma nth_similarities: "i < length (chunks r) \<Longrightarrow> similarities r q ! i = similarity r q i"
  by (simp add: similarities_def)

lemma set_top_indices: "set (top_indices r q k) \<subseteq> {0..<length (chunks r)}"
  using set_slice_from[of "- k" "argsort (tie_rank r) (similarities r q)"]
  by (simp add: top_indices_def set_argsort length_similarities)

lemma distinct_top_indices: "distinct (top_indices r q k)"
  by (simp add: top_indices_def slice_from_def Let_def distinct_argsort)

lemma length_top_indices_le: "length (top_indices r q k) \<le> length (chunks r)"
  using length_slice_from[of "- k" "argsort (tie_rank r) (similarities r q)"]
  by (simp add: top_indices_def length_argsort length_similarities)

lemma length_top_indices:
  assumes "1 \<le> k"
  shows "length (top_indices r q k) = min (nat k) (length (chunks r))"
  using assms by (simp add: top_indices_def slice_from_neg length_argsort length_similarities)

lemma top_indices_zero: "top_indices r q 0 = rev (argsort (tie_rank r) (similarities r q))"
  by (simp add: top_indices_def slice_from_zero)

lemma search_call_results:
  "fst (search_call q k r) = (if chunks r = [] then [] else map (result_of r q) (top_indices r q k))"
proof -
  obtain qv vz where t: "transform r (vectorizer r) q = (qv, vz)"
    by (cases "transform r (vectorizer r) q")
  then have qv: "query_vector r q = qv"
    by (simp add: query_vector_def)
  have sim: "similarity r q = (\<lambda>idx. cosine r qv (vectors r idx))"
    by (rule ext) (simp add: similarity_def qv)
  have "result_of r q = (\<lambda>idx.
      \<lparr>doc_id = chunk_id (chunks r ! idx), doc_content = chunk_content (chunks r ! idx),
       doc_source = chunk_source (chunks r ! idx),
       doc_score = map (\<lambda>idx. cosine r qv (vectors r idx)) [0..<length (chunks r)] ! idx\<rparr>)"
    by (rule ext) (simp add: result_of_def Let_def similarities_def sim)
  then show ?thesis
    by (simp add: search_call_def t Let_def top_indices_def similarities_def sim)
qed

lemma search_call_retriever:
  "snd (search_call q k r)
     = (if chunks r = [] then r else r\<lparr>vectorizer := snd (transform r (vectorizer r) q)\<rparr>)"
  by (simp add: search_call_def Let_def split: prod.splits)

lemma search_eq_map: "search r q k = map (result_of r q) (top_indices r q k)"
proof (cases "chunks r = []")
  case True
  then have "top_indices r q k = []"
    using length_top_indices_le[of r q k] by simp
  with True show ?thesis by (simp add: search_def search_call_results)
next
  case False
  then show ?thesis by (simp add: search_def search_call_results)
qed

lemma top_indices_order:
  "sorted_wrt (\<lambda>i j. similarity r q j \<le> similarity r q i) (top_indices r q k)"
proof -
  let ?a = "similarities r q"
  let ?R = "\<lambda>i j. ?a ! i \<le> ?a ! j"
  have "sorted_wrt ?R (slice_from (- k) (argsort (tie_rank r) ?a))"
    using argsort_ascending[of ?a "tie_rank r"] by (simp add: slice_from_def Let_def)
  then have "sorted_wrt (\<lambda>i j. ?R j i) (top_indices r q k)"
    by (simp add: top_indices_def sorted_wrt_rev)
  then show ?thesis
  proof (rule sorted_wrt_mono_rel[rotated])
    fix i j
    assume "i \<in> set (top_indices r q k)" "j \<in> set (top_indices r q k)" "?R j i"
    moreover from this have "i < length (chunks r)" "j < length (chunks r)"
      using set_top_indices[of r q k] by auto
    ultimately show "similarity r q j \<le> similarity r q i"
      by (simp add: nth_similarities)
  qed
qed

lemma top_indices_best:
  assumes "j < length (chunks r)" "j \<notin> set (top_indices r q k)" "i \<in> set (top_indices r q k)"
  shows "similarity r q j \<le> similarity r q i"
proof -
  let ?a = "similarities r q"
  let ?S = "argsort (tie_rank r) ?a"
  let ?R = "\<lambda>i j. ?a ! i \<le> ?a ! j"
  obtain m where tk: "top_indices r q k = rev (drop m ?S)"
    by (auto simp: top_indices_def slice_from_def Let_def)
  have "sorted_wrt ?R (take m ?S @ drop m ?S)"
    using argsort_ascending[of ?a "tie_rank r"] by (simp only: append_take_drop_id)
  then have *: "\<forall>x\<in>set (take m ?S). \<forall>y\<in>set (drop m ?S). ?R x y"
    unfolding sorted_wrt_append by blast
  have "j \<in> set ?S" using assms(1) by (simp add: set_argsort length_similarities)
  then have "j \<in> set (take m ?S) \<union> set (drop m ?S)"
    by (metis append_take_drop_id set_append)
  with assms(2) tk have j: "j \<in> set (take m ?S)" by simp
  from assms(3) tk have i: "i \<in> set (drop m ?S)" by simp
  have il: "i < length (chunks r)"
    using assms(3) set_top_indices[of r q k] by auto
  from * j i have "?a ! j \<le> ?a ! i"
    by fastforce
  with il assms(1) show ?thesis
    by (simp add: nth_similarities)
qed

lemma mset_top_indices_zero: "mset (top_indices r q 0) = mset [0..<length (chunks r)]"
  by (simp add: top_indices_zero argsort_def length_similarities)

lemma map_chunk_nth: "map (\<lambda>i. f (xs ! i)) [0..<length xs] = map f xs"
  by (rule nth_equalityI) simp_all

lemma doc_id_result_of: "doc_id (result_of r q i) = chunk_id (chunks r ! i)"
  by (simp add: result_of_def Let_def)

lemma doc_score_result_of:
  "i < length (chunks r) \<Longrightarrow> doc_score (result_of r q i) = similarity r q i"
  by (simp add: result_of_def Let_def nth_similarities)

lemmas ranker_eval =
  search_def search_call_def top_indices_def result_of_def similarities_def similarity_def
  query_vector_def argsort_def slice_from_def dot_def Let_def

text \<open>
  Claim C6, as the code has it. For every query and every \<open>k \<ge> 1\<close>, the search returns
  \<open>min k n\<close> results for a corpus of \<open>n\<close> chunks, one per selected chunk and each
  carrying that chunk's identifier and similarity; no chunk left out is more similar than
  a chunk returned; and the results are ordered most-relevant first, the similarity never
  increasing along the list. Nothing is promised about the order of chunks of exactly
  equal similarity: it follows numpy's unstable sort.
\<close>

theorem search_top_k:
  assumes "1 \<le> k"
  shows "search r q k = map (result_of r q) (top_indices r q k)
    \<and> length (search r q k) = min (nat k) (length (chunks r))
    \<and> distinct (top_indices r q k)
    \<and> (\<forall>i\<in>set (top_indices r q k). i < length (chunks r)
          \<and> doc_id (result_of r q i) = chunk_id (chunks r ! i)
          \<and> doc_score (result_of r q i) = similarity r q i)
    \<and> (\<forall>j<length (chunks r). j \<notin> set (top_indices r q k) \<longrightarrow>
          (\<forall>i\<in>set (top_indices r q k). similarity r q j \<le> similarity r q i))
    \<and> sorted_wrt (\<lambda>i j. similarity r q j \<le> similarity r q i) (top_indices r q k)
    \<and> sorted_wrt (\<lambda>x y. y \<le> x) (map doc_score (search r q k))"
proof -
  have in_range: "i < length (chunks r)" if "i \<in> set (top_indices r q k)" for i
    using that set_top_indices[of r q k] by auto
  have "length (search r q k) = min (nat k) (length (chunks r))"
    using assms by (simp add: search_eq_map length_top_indices)
  moreover have scores: "\<forall>i\<in>set (top_indices r q k). i < length (chunks r)
          \<and> doc_id (result_of r q i) = chunk_id (chunks r ! i)
          \<and> doc_score (result_of r q i) = similarity r q i"
    using in_range by (simp add: doc_id_result_of doc_score_result_of)
  moreover have "\<forall>j<length (chunks r). j \<notin> set (top_indices r q k) \<longrightarrow>
          (\<forall>i\<in>set (top_indices r q k). similarity r q j \<le> similarity r q i)"
    using top_indices_best by blast
  moreover have "sorted_wrt (\<lambda>x y. y \<le> x) (map doc_score (search r q k))"
  proof -
    have "sorted_wrt (\<lambda>i j. doc_score (result_of r q j) \<le> doc_score (result_of r q i))
            (top_indices r q k)"
      using top_indices_order[of r q k]
      by (rule sorted_wrt_mono_rel[rotated]) (simp add: scores)
    then show ?thesis
      by (simp add: search_eq_map sorted_wrt_map)
  qed
  ultimately show ?thesis
    using search_eq_map distinct_top_indices top_indices_order by blast
qed

theorem search_top_k_witness:
  "(1::int) \<le> 3
   \<and> map doc_id (search graded_retriever ''revenue per order'' 3)
       = [''kpi::chunk2'', ''kpi::chunk0'', ''kpi::chunk3'']
   \<and> length (search graded_retriever ''revenue per order'' 3)
       = min (nat 3) (length (chunks graded_retriever))"
  using search_top_k [of 3 graded_retriever "''revenue per order''"]
  by (simp add: ranker_eval graded_retriever_def)

theorem search_tie_order_counterexample:
  "similarity tie_retriever ''discount codes'' 0 = similarity tie_retriever ''discount codes'' 1
   \<and> map chunk_id (chunks tie_retriever) = [''policy::chunk0'', ''policy::chunk1'']
   \<and> map doc_id (search tie_retriever ''discount codes'' 2)
       = [''policy::chunk1'', ''policy::chunk0'']
   \<and> length (search tie_retriever ''discount codes'' 3) = 2
   \<and> length (search tie_retriever ''discount codes'' 0) = 2"
  by (simp add: ranker_eval tie_retriever_def)

text \<open>
  Without the library's guarantee a repeated call need not agree with the first: when
  \<open>transform\<close> changes the vectorizer, the second of two identical calls sees another
  vector space.
\<close>

lemma search_call_after_refit_differs:
  "map doc_score (fst (search_call ''revenue'' 3 refitting_retriever)) = [0, 0, 0]
   \<and> map doc_score
         (fst (search_call ''revenue'' 3 (snd (search_call ''revenue'' 3 refitting_retriever))))
       = [1 / 2, 1 / 2, 1 / 4]"
  by (simp add: ranker_eval refitting_retriever_def graded_retriever_def no_vocabulary_def)

text \<open>
  Claim C9. On an empty corpus the search returns the empty sequence for every query and
  every \<open>k\<close>; for every \<open>k\<close>, in particular one above the corpus size, it returns at most
  as many results as the corpus has chunks. A call changes no attribute of the retriever
  other than, possibly, the vectorizer through its \<^verbatim>\<open>transform\<close> method; as \<^verbatim>\<open>transform\<close>
  leaves a fitted vectorizer as it is, the retriever after the call is the retriever
  before it, and a second call with the same query and \<open>k\<close> on it returns the same
  results with the same scores.
\<close>

theorem search_empty_bounded_deterministic:
  "(chunks r = [] \<longrightarrow> search r q k = [])
   \<and> length (search r q k) \<le> length (chunks r)
   \<and> chunks (snd (search_call q k r)) = chunks r
   \<and> vectors (snd (search_call q k r)) = vectors r
   \<and> (snd (transform r (vectorizer r) q) = vectorizer r \<longrightarrow>
        snd (search_call q k r) = r
        \<and> fst (search_call q k (snd (search_call q k r))) = fst (search_call q k r))"
proof -
  have "chunks r = [] \<longrightarrow> search r q k = []"
    by (simp add: search_def search_call_results)
  moreover have "length (search r q k) \<le> length (chunks r)"
    using length_top_indices_le[of r q k] by (simp add: search_eq_map)
  moreover have "chunks (snd (search_call q k r)) = chunks r"
    "vectors (snd (search_call q k r)) = vectors r"
    by (simp_all add: search_call_retriever)
  moreover have "snd (search_call q k r) = r"
    if "snd (transform r (vectorizer r) q) = vectorizer r"
    using that by (simp add: search_call_retriever)
  ultimately show ?thesis
    by simp
qed

theorem search_empty_bounded_deterministic_witness:
  "chunks empty_retriever = []
   \<and> search empty_retriever ''returns policy'' 3 = []
   \<and> length (search tie_retriever ''returns policy'' 3) \<le> length (chunks tie_retriever)
   \<and> snd (transform tie_retriever (vectorizer tie_retriever) ''returns policy'')
       = vectorizer tie_retriever
   \<and> snd (search_call ''returns policy'' 3 tie_retriever) = tie_retriever
   \<and> map doc_id
         (fst (search_call ''returns policy'' 3
                 (snd (search_call ''returns policy'' 3 tie_retriever))))
       = [''policy::chunk1'', ''policy::chunk0'']"
proof -
  have e: "chunks empty_retriever = []"
    by (simp add: empty_retriever_def)
  have t: "snd (transform tie_retriever (vectorizer tie_retriever) ''returns policy'')
       = vectorizer tie_retriever"
    by (simp add: tie_retriever_def)
  have ids: "map doc_id (fst (search_call ''returns policy'' 3 tie_retriever))
       = [''policy::chunk1'', ''policy::chunk0'']"
    by (simp add: ranker_eval tie_retriever_def)
  from search_empty_bounded_deterministic [of empty_retriever "''returns policy''" 3] e
  have "search empty_retriever ''returns policy'' 3 = []"
    by blast
  moreover from search_empty_bounded_deterministic [of tie_retriever "''returns policy''" 3] t
  have "length (search tie_retriever ''returns policy'' 3) \<le> length (chunks tie_retriever)"
    and "snd (search_call ''returns policy'' 3 tie_retriever) = tie_retriever"
    and "fst (search_call ''returns policy'' 3
               (snd (search_call ''returns policy'' 3 tie_retriever)))
         = fst (search_call ''returns policy'' 3 tie_retriever)"
    by blast+
  ultimately show ?thesis
    using e t ids by simp
qed

text \<open>
  Claim C10. With \<open>top_k = 0\<close> the slice \<^verbatim>\<open>[-0:]\<close> is the whole index array: on a
  non-empty corpus the search returns one result per chunk of the corpus, not the empty
  sequence.
\<close>

theorem search_top_k_zero:
  assumes "chunks r \<noteq> []"
  shows "length (search r q 0) = length (chunks r)
    \<and> search r q 0 \<noteq> []
    \<and> mset (map doc_id (search r q 0)) = mset (map chunk_id (chunks r))"
proof -
  have len: "length (search r q 0) = length (chunks r)"
    using arg_cong[OF mset_top_indices_zero[of r q], of size]
    by (simp add: search_eq_map)
  have "mset (map doc_id (search r q 0))
      = image_mset (\<lambda>i. chunk_id (chunks r ! i)) (mset (top_indices r q 0))"
    by (simp add: search_eq_map doc_id_result_of comp_def)
  also have "\<dots> = mset (map (\<lambda>i. chunk_id (chunks r ! i)) [0..<length (chunks r)])"
    by (simp only: mset_top_indices_zero mset_map)
  also have "\<dots> = mset (map chunk_id (chunks r))"
    by (simp only: map_chunk_nth)
  finally show ?thesis
    using len assms by auto
qed

theorem search_top_k_zero_witness:
  "chunks tie_retriever \<noteq> []
   \<and> length (search tie_retriever ''discount codes'' 0) = 2
   \<and> search tie_retriever ''discount codes'' 0 \<noteq> []"
  using search_top_k_zero [of tie_retriever "''discount codes''"]
  by (simp add: tie_retriever_def)

section \<open>Properties of the answer parser\<close>

lemma split_from_not_Nil: "split_from sep acc s \<noteq> []"
  by (induction sep acc s rule: split_from.induct) auto

lemma split_from_second:
  assumes "sep \<noteq> []" "sublist sep s"
  shows "\<exists>p q ps. split_from sep acc s = p # q # ps"
  using assms
proof (induction s arbitrary: acc)
  case Nil
  then show ?case by simp
next
  case (Cons c cs)
  show ?case
  proof (cases "prefix sep (c # cs)")
    case True
    obtain q ps where "split_from sep [] (drop (length sep - 1) cs) = q # ps"
      using split_from_not_Nil by (meson neq_Nil_conv)
    with True Cons.prems(1) show ?thesis by simp
  next
    case False
    with Cons.prems have "sublist sep cs"
      by (simp add: sublist_Cons_right)
    with Cons.IH[OF Cons.prems(1)] False show ?thesis by simp
  qed
qed

lemma second_piece_split:
  assumes "py_in ''```'' s"
  shows "\<exists>p. second_piece (split s ''```'') = Inr p"
proof -
  obtain p q ps where "split_from ''```'' [] s = p # q # ps"
    using split_from_second[of "''```''" s "[]"] assms by (auto simp: py_in_def)
  then show ?thesis by (simp add: second_piece_def split_def)
qed

lemma unfence_total: "\<exists>r. unfence s = Inr r"
  using second_piece_split[of s] by (auto simp: unfence_def)

lemma parse_answer_total: "\<exists>v. parse_answer a ans hint = Inr v"
proof -
  obtain r where "unfence (strip ans) = Inr r"
    using unfence_total by blast
  then show ?thesis
    by (cases "parse_try a r hint") (simp_all add: parse_answer_def)
qed

lemma parse_answer_fallback:
  assumes "unfence (strip ans) = Inr ans1" "parse_try a ans1 hint = Inl e"
  shows "parse_answer a ans hint
           = Inr (case json_loads a ans1 of Some j \<Rightarrow> AJson j | None \<Rightarrow> AStr ans1)"
  using assms by (simp add: parse_answer_def parse_fallback_def)

lemmas str_eval =
  strip_def isspace_def whitespace_def py_in_def sublist_Cons_right isdigit_def
  search_run_def digit_val_def nat_of_digits_def unfence_def
  second_piece_def split_def startswith_def

lemma search_run_first:
  assumes "ans = pre @ ds @ post" "\<forall>c\<in>set pre. \<not> cls c" "ds \<noteq> []" "\<forall>c\<in>set ds. cls c"
    "post = [] \<or> \<not> cls (hd post)"
  shows "search_run cls ans = Some ds"
proof -
  have "dropWhile (\<lambda>c. \<not> cls c) ans = ds @ post"
    using assms by (cases ds) (simp_all add: dropWhile_append3 dropWhile_append)
  moreover have "takeWhile cls (ds @ post) = ds"
    using assms by (cases post) (simp_all add: takeWhile_append)
  ultimately show ?thesis
    using assms(3) by (simp add: search_run_def)
qed

lemma search_run_none:
  assumes "\<forall>c\<in>set ans. \<not> cls c"
  shows "search_run cls ans = None"
proof -
  have h: "dropWhile (\<lambda>c. \<not> cls c) ans = []"
    using assms by simp
  show ?thesis
    unfolding search_run_def h by simp
qed

text \<open>
  Claim C7. The answer parser never raises, whatever the answer text and the format
  hint. Under the integer hint (\<^verbatim>\<open>int\<close> in the code) the text ``The answer is 42
  units'' parses to 42, and in general the first maximal digit run is parsed; under the
  decimal hint (\<^verbatim>\<open>float\<close>) the text ``$123.456'' parses to the float 123.46, and a text
  with no digit and no dot parses to 0.0. Whenever the hint-directed parse fails, the result is
  the generic JSON parse of the text, and the trimmed text itself when that fails too.
\<close>

theorem parse_answer_never_raises:
  "(\<exists>v. parse_answer a ans hint = Inr v)
   \<and> parse_answer a ''The answer is 42 units'' ''int'' = Inr (AInt 42)
   \<and> parse_answer a ''$123.456'' ''float'' = Inr (AFloat (double (12346 / 100)))
   \<and> (\<forall>pre ds post.
         unfence (strip ans) = Inr (pre @ ds @ post) \<and> (\<forall>c\<in>set pre. \<not> isdigit c) \<and> ds \<noteq> []
         \<and> (\<forall>c\<in>set ds. isdigit c) \<and> (post = [] \<or> \<not> isdigit (hd post))
         \<longrightarrow> parse_answer a ans ''int'' = Inr (AInt (int (nat_of_digits ds))))
   \<and> (\<forall>ans1.
         unfence (strip ans) = Inr ans1 \<and> (\<forall>c\<in>set ans1. \<not> (isdigit c \<or> c = CHR ''.''))
         \<longrightarrow> parse_answer a ans ''float'' = Inr (AFloat 0))
   \<and> (\<forall>ans1 e.
         unfence (strip ans) = Inr ans1 \<and> parse_try a ans1 hint = Inl e
         \<longrightarrow> parse_answer a ans hint
               = Inr (case json_loads a ans1 of Some j \<Rightarrow> AJson j | None \<Rightarrow> AStr ans1))"
proof -
  have ex_int: "parse_answer a ''The answer is 42 units'' ''int'' = Inr (AInt 42)"
    by (simp add: parse_answer_def parse_try_def str_eval)
  have ex_float: "parse_answer a ''$123.456'' ''float'' = Inr (AFloat (double (12346 / 100)))"
    by code_simp
  have first_run: "parse_answer a ans ''int'' = Inr (AInt (int (nat_of_digits ds)))"
    if "unfence (strip ans) = Inr (pre @ ds @ post)" "\<forall>c\<in>set pre. \<not> isdigit c" "ds \<noteq> []"
      "\<forall>c\<in>set ds. isdigit c" "post = [] \<or> \<not> isdigit (hd post)" for pre ds post
    using that search_run_first[of "pre @ ds @ post" pre ds post isdigit]
    by (simp add: parse_answer_def parse_try_def)
  have absent: "parse_answer a ans ''float'' = Inr (AFloat 0)"
    if "unfence (strip ans) = Inr ans1" "\<forall>c\<in>set ans1. \<not> (isdigit c \<or> c = CHR ''.'')" for ans1
    using that search_run_none[of ans1 "\<lambda>c. isdigit c \<or> c = CHR ''.''"]
    by (simp add: parse_answer_def parse_try_def)
  show ?thesis
    using parse_answer_total ex_int ex_float first_run absent parse_answer_fallback
    by blast
qed

theorem parse_answer_never_raises_witness:
  "unfence (strip '' about twelve '') = Inr ''about twelve''
   \<and> parse_try (demo_agent ''sql'' ''SELECT 1'' db_orders) ''about twelve'' ''int''
       = Inl AttributeError
   \<and> parse_answer (demo_agent ''sql'' ''SELECT 1'' db_orders) '' about twelve '' ''int''
       = Inr (AStr ''about twelve'')"
  using parse_answer_never_raises
    [of "demo_agent ''sql'' ''SELECT 1'' db_orders" "'' about twelve ''" "''int''"]
  by (simp add: parse_try_def str_eval demo_agent_def)

section \<open>Properties of the orchestration\<close>

lemma executor_empty:
  assumes "sql state = []"
  shows "executor_node a (state, w)
    = Inr (state\<lparr>sql_results :=
             [(''success'', PBool True), (''rows'', PRows []), (''columns'', PStrs [])]\<rparr>, w)"
  using assms by (simp add: executor_node_def)

lemma step_executor_empty:
  assumes "sql state = []"
  shows "step a (executor, state, w)
    = Inr (synthesizer,
           state\<lparr>sql_results :=
             [(''success'', PBool True), (''rows'', PRows []), (''columns'', PStrs [])]\<rparr>, w)"
  using assms by (simp add: step_def executor_empty should_repair_def getitem_def)

lemma invoke_from_Suc:
  "n \<noteq> END \<Longrightarrow> invoke_from a (Suc fuel) (n, c)
     = (case step a (n, c) of Inl e \<Rightarrow> Inl e | Inr nc \<Rightarrow> invoke_from a fuel nc)"
  by (cases n) simp_all

lemma invoke_rag:
  assumes "Router_forward (classify a (lm_calls w) q) = ''rag''"
  shows "invoke_from a (Suc (Suc (Suc (Suc fuel)))) (router, initial_state q h, w)
           = Inl (KeyError ''success'')"
  using assms
  by (simp add: invoke_from_Suc step_def route_node_def
        retriever_node_def planner_node_def should_query_sql_def synthesizer_node_def
        initial_state_def getitem_def Let_def split: prod.splits)

lemma getitem_Inr: "getitem d k = Inr v \<longleftrightarrow> map_of d k = Some v"
  by (simp add: getitem_def split: option.splits)

lemma getitem_Inl: "getitem d k = Inl e \<Longrightarrow> e = KeyError k"
  by (simp add: getitem_def split: option.splits)

lemma second_piece_Inl: "second_piece ps = Inl e \<Longrightarrow> e = IndexError"
  by (auto simp: second_piece_def split: list.splits)

lemma py_len_Inl: "py_len v = Inl e \<Longrightarrow> e = TypeError"
  by (cases v) auto

lemma route_node_keeps:
  assumes "route_node a (st, w) = Inr (st', w')"
  shows "repair_count st' = repair_count st \<and> sql_results st' = sql_results st"
  using assms by (auto simp: route_node_def Let_def)

lemma retriever_node_keeps:
  assumes "retriever_node a (st, w) = Inr (st', w')"
  shows "repair_count st' = repair_count st \<and> sql_results st' = sql_results st"
  using assms by (auto simp: retriever_node_def Let_def split: prod.splits)

lemma planner_node_keeps:
  assumes "planner_node a (st, w) = Inr (st', w')"
  shows "repair_count st' = repair_count st \<and> sql_results st' = sql_results st"
  using assms by (auto simp: planner_node_def Let_def)

lemma nl_to_sql_node_keeps:
  assumes "nl_to_sql_node a (st, w) = Inr (st', w')"
  shows "repair_count st' = repair_count st \<and> sql_results st' = sql_results st"
  using assms by (auto simp: nl_to_sql_node_def Let_def split: sum.splits)

lemma executor_node_keeps:
  assumes "executor_node a (st, w) = Inr (st', w')"
  shows "repair_count st' = repair_count st
    \<and> sql_results st'
        = (if sql st = [] then [(''success'', PBool True), (''rows'', PRows []), (''columns'', PStrs [])]
           else execute_query a (db_log w) (sql st))"
  using assms by (auto simp: executor_node_def Let_def split: sum.splits if_splits)

lemma repair_node_counts:
  assumes "repair_node a (st, w) = Inr (st', w')"
  shows "repair_count st' = repair_count st + 1"
  using assms by (auto simp: repair_node_def Let_def split: sum.splits)

lemma synthesizer_node_keeps:
  assumes "synthesizer_node a (st, w) = Inr (st', w')"
  shows "repair_count st' = repair_count st \<and> sql_results st' = sql_results st
    \<and> retrieved_docs st' = retrieved_docs st \<and> sql st' = sql st
    \<and> calculate_confidence a st = Inr (confidence st')
    \<and> extract_citations st = Inr (citations st')"
  using assms
  by (auto simp: synthesizer_node_def Let_def
      split: sum.splits prod.splits if_splits option.splits)

lemma should_repair_repair:
  assumes "should_repair st = Inr ''repair''"
  shows "repair_count st < 2 \<and> \<not> succeeded (sql_results st)"
  using assms
  by (auto simp: should_repair_def succeeded_def getitem_def split: if_splits option.splits sum.splits)

lemma should_repair_capped:
  assumes "2 \<le> repair_count st"
  shows "should_repair st = Inr ''synthesize''"
  using assms by (simp add: should_repair_def)

lemma step_inv:
  assumes "repair_inv n st" "step a (n, st, w) = Inr (n', st', w')"
  shows "repair_inv n' st'"
proof (cases n)
  case router
  with assms show ?thesis
    by (auto simp: step_def repair_inv_def split: sum.splits dest: route_node_keeps)
next
  case retriever_n
  with assms show ?thesis
    by (auto simp: step_def repair_inv_def split: sum.splits dest: retriever_node_keeps)
next
  case planner
  with assms show ?thesis
    by (auto simp: step_def repair_inv_def split: sum.splits if_splits dest: planner_node_keeps)
next
  case nl_to_sql
  with assms show ?thesis
    by (auto simp: step_def repair_inv_def split: sum.splits dest: nl_to_sql_node_keeps)
next
  case executor
  with assms obtain d where e: "executor_node a (st, w) = Inr (st', w')"
    and d: "should_repair st' = Inr d" and n': "n' = (if d = ''repair'' then repair_n else synthesizer)"
    by (auto simp: step_def split: sum.splits)
  from e have "repair_count st' = repair_count st"
    by (simp add: executor_node_keeps)
  with assms(1) d n' show ?thesis
    using should_repair_repair[of st'] by (auto simp: repair_inv_def)
next
  case synthesizer
  with assms show ?thesis
    by (auto simp: step_def repair_inv_def split: sum.splits dest: synthesizer_node_keeps)
next
  case repair_n
  with assms show ?thesis
    by (auto simp: step_def repair_inv_def split: sum.splits dest: repair_node_counts)
next
  case END
  with assms show ?thesis
    by (auto simp: step_def repair_inv_def)
qed

lemma after_steps_inv:
  assumes "after_steps a k (st0, w0) = Inr (n, st, w)" "repair_count st0 = 0"
  shows "repair_inv n st"
  using assms
proof (induction k arbitrary: n st w)
  case 0
  then show ?case by (simp add: repair_inv_def)
next
  case (Suc k)
  then obtain n1 st1 w1 where "after_steps a k (st0, w0) = Inr (n1, st1, w1)"
    and "step a (n1, st1, w1) = Inr (n, st, w)"
    by (auto split: sum.splits)
  with Suc show ?case
    using step_inv by blast
qed

lemma NLToSQL_forward_Inl: "NLToSQL_forward a n q s c = Inl e \<Longrightarrow> e = IndexError"
  by (auto simp: NLToSQL_forward_def Let_def split: if_splits sum.splits dest: second_piece_Inl)

lemma SQLRepair_forward_Inl: "SQLRepair_forward a n q s c = Inl e \<Longrightarrow> e = IndexError"
  by (auto simp: SQLRepair_forward_def Let_def split: if_splits sum.splits dest: second_piece_Inl)

lemma success_and_rows_Inl: "success_and_rows d = Inl e \<Longrightarrow> \<exists>k. e = KeyError k"
  by (auto simp: success_and_rows_def split: if_splits sum.splits dest: getitem_Inl)

lemma node_errors:
  "route_node a c \<noteq> Inl GraphRecursionError"
  "retriever_node a c \<noteq> Inl GraphRecursionError"
  "planner_node a c \<noteq> Inl GraphRecursionError"
  "nl_to_sql_node a c \<noteq> Inl GraphRecursionError"
  "repair_node a c \<noteq> Inl GraphRecursionError"
proof -
  obtain st w where c: "c = (st, w)" by (cases c)
  show "route_node a c \<noteq> Inl GraphRecursionError"
    by (simp add: c route_node_def Let_def)
  show "retriever_node a c \<noteq> Inl GraphRecursionError"
    by (simp add: c retriever_node_def Let_def split: prod.splits)
  show "planner_node a c \<noteq> Inl GraphRecursionError"
    by (simp add: c planner_node_def Let_def)
  show "nl_to_sql_node a c \<noteq> Inl GraphRecursionError"
    by (auto simp: c nl_to_sql_node_def Let_def split: sum.splits dest: NLToSQL_forward_Inl)
  show "repair_node a c \<noteq> Inl GraphRecursionError"
    by (auto simp: c repair_node_def Let_def split: sum.splits
        dest: SQLRepair_forward_Inl getitem_Inl)
qed

lemma executor_node_error: "executor_node a c \<noteq> Inl GraphRecursionError"
proof -
  obtain st w where c: "c = (st, w)" by (cases c)
  show ?thesis
    by (auto simp: c executor_node_def Let_def split: sum.splits if_splits
        dest: getitem_Inl py_len_Inl)
qed

lemma should_repair_error: "should_repair st \<noteq> Inl GraphRecursionError"
  by (auto simp: should_repair_def split: sum.splits if_splits dest: getitem_Inl)

lemma synthesizer_node_error: "synthesizer_node a c \<noteq> Inl GraphRecursionError"
proof
  assume h: "synthesizer_node a c = Inl GraphRecursionError"
  obtain st w where c: "c = (st, w)" by (cases c)
  have p: "parse_answer a x y \<noteq> Inl e" for x y e
    using parse_answer_total[of a x y] by auto
  have ec: "extract_citations st \<noteq> Inl GraphRecursionError"
    by (auto simp: extract_citations_def split: sum.splits dest: getitem_Inl)
  have cc: "calculate_confidence a st \<noteq> Inl GraphRecursionError"
    by (auto simp: calculate_confidence_def Let_def split: sum.splits dest: success_and_rows_Inl)
  from h show False
    unfolding c synthesizer_node_def Let_def
    by (auto split: sum.splits if_splits prod.splits option.splits dest: getitem_Inl
        simp: p ec cc)
qed

lemma step_error: "step a (n, c) \<noteq> Inl GraphRecursionError"
  using node_errors[of a c] executor_node_error[of a c] synthesizer_node_error[of a c]
    should_repair_error
  by (cases n) (auto simp: step_def split: sum.splits)

lemma step_decreases:
  assumes "repair_inv n st" "step a (n, st, w) = Inr (n', st', w')" "n \<noteq> END"
  shows "steps_left n' (repair_count st') < steps_left n (repair_count st)"
proof -
  have i': "repair_inv n' st'"
    using assms(1,2) by (rule step_inv)
  show ?thesis
  proof (cases n)
    case router
    with assms show ?thesis by (auto simp: step_def split: sum.splits)
  next
    case retriever_n
    with assms show ?thesis by (auto simp: step_def split: sum.splits)
  next
    case planner
    with assms show ?thesis by (auto simp: step_def split: sum.splits if_splits)
  next
    case nl_to_sql
    with assms show ?thesis by (auto simp: step_def split: sum.splits)
  next
    case executor
    with assms have "repair_count st' = repair_count st"
      by (auto simp: step_def split: sum.splits dest: executor_node_keeps)
    moreover from executor assms have "n' = repair_n \<or> n' = synthesizer"
      by (auto simp: step_def split: sum.splits if_splits)
    ultimately show ?thesis
      using i' assms(1) executor by (auto simp: repair_inv_def)
  next
    case synthesizer
    with assms show ?thesis by (auto simp: step_def split: sum.splits)
  next
    case repair_n
    with assms have "repair_count st' = repair_count st + 1" "n' = executor"
      by (auto simp: step_def split: sum.splits dest: repair_node_counts)
    with assms(1) repair_n show ?thesis by (auto simp: repair_inv_def)
  next
    case END
    with assms show ?thesis by simp
  qed
qed

lemma invoke_from_bounded:
  assumes "repair_inv n st" "steps_left n (repair_count st) \<le> fuel"
  shows "invoke_from a fuel (n, st, w) \<noteq> Inl GraphRecursionError"
  using assms
proof (induction fuel arbitrary: n st w)
  case 0
  then have "n = END" by (cases n) (auto simp: repair_inv_def)
  then show ?case by simp
next
  case (Suc fuel)
  show ?case
  proof (cases "n = END")
    case True
    then show ?thesis by simp
  next
    case False
    show ?thesis
    proof (cases "step a (n, st, w)")
      case (Inl e)
      with False step_error[of a n "(st, w)"] show ?thesis
        by (simp add: invoke_from_Suc)
    next
      case (Inr nc)
      obtain n' st' w' where nc: "nc = (n', st', w')" by (cases nc)
      have "repair_inv n' st'"
        using Suc.prems(1) Inr nc step_inv by blast
      moreover have "steps_left n' (repair_count st') \<le> fuel"
        using step_decreases[OF Suc.prems(1) _ False] Inr nc Suc.prems(2) by fastforce
      ultimately have "invoke_from a fuel (n', st', w') \<noteq> Inl GraphRecursionError"
        by (rule Suc.IH)
      with False Inr nc show ?thesis
        by (simp add: invoke_from_Suc)
    qed
  qed
qed

lemma graph_invoke_bounded:
  "graph_invoke a (initial_state q h, w) \<noteq> Inl GraphRecursionError"
  unfolding graph_invoke_def
  by (rule invoke_from_bounded) (simp_all add: repair_inv_def initial_state_def recursion_limit_def)

lemma invoke_from_final:
  assumes "invoke_from a fuel (n, c) = Inr c'" "n \<noteq> END"
  shows "\<exists>c0. synthesizer_node a c0 = Inr c'"
  using assms
proof (induction fuel arbitrary: n c)
  case 0
  then show ?case by (cases n) simp_all
next
  case (Suc fuel)
  then obtain n1 c1 where s: "step a (n, c) = Inr (n1, c1)" and i: "invoke_from a fuel (n1, c1) = Inr c'"
    by (auto simp: invoke_from_Suc split: sum.splits)
  show ?case
  proof (cases "n1 = END")
    case True
    with i have "c1 = c'" by simp
    with s True Suc.prems(2) have "synthesizer_node a c = Inr c'"
      by (cases n) (auto simp: step_def split: sum.splits if_splits)
    then show ?thesis by blast
  next
    case False
    with i show ?thesis by (rule Suc.IH)
  qed
qed

lemmas run_eval =
  step_def route_node_def retriever_node_def planner_node_def nl_to_sql_node_def
  executor_node_def repair_node_def synthesizer_node_def should_query_sql_def
  should_repair_def search_call_def NLToSQL_forward_def SQLRepair_forward_def
  Synthesizer_forward_def execute_query_def getitem_def initial_state_def no_effects_def
  demo_agent_def db_failing_def db_orders_def Let_def

lemmas router_eval =
  Router_forward_def strip_def lower_def lower_char_def isspace_def whitespace_def py_in_def
  sublist_Cons_right ascii_upper_def ascii_lower_def

text \<open>
  Claim C1, on the code: a run whose normalized route is \<open>rag\<close> reaches the
  synthesizer after three steps, with no statement generated or executed, the SQL text
  empty and \<^verbatim>\<open>sql_results\<close> still the empty dictionary of the initial state; the
  synthesizer's first read of the \<^verbatim>\<open>success\<close> entry then raises \<^verbatim>\<open>KeyError\<close>, and the
  run ends with that exception instead of a result.
\<close>

theorem rag_route_raises_KeyError:
  assumes "Router_forward (classify a (lm_calls w) q) = ''rag''"
  shows "(\<exists>st w'. after_steps a 3 (initial_state q h, w) = Inr (synthesizer, st, w')
            \<and> sql st = [] \<and> sql_results st = [] \<and> db_log w' = db_log w)
    \<and> run a q h w = Inl (KeyError ''success'')"
proof -
  have path: "\<exists>st w'. after_steps a 3 (initial_state q h, w) = Inr (synthesizer, st, w')
            \<and> sql st = [] \<and> sql_results st = [] \<and> db_log w' = db_log w"
    using assms
    by (simp add: eval_nat_numeral step_def route_node_def retriever_node_def planner_node_def
        should_query_sql_def initial_state_def Let_def split: prod.splits)
  have fuel: "recursion_limit = Suc (Suc (Suc (Suc 21)))"
    by (simp add: recursion_limit_def)
  have "graph_invoke a (initial_state q h, w) = Inl (KeyError ''success'')"
    unfolding graph_invoke_def fuel by (rule invoke_rag[OF assms])
  then have "run a q h w = Inl (KeyError ''success'')"
    by (simp add: run_def)
  with path show ?thesis
    by blast
qed

theorem rag_route_raises_KeyError_witness:
  "Router_forward
     (classify (demo_agent ''RAG'' ''SELECT 1'' db_orders) (lm_calls no_effects)
        ''What is the return policy?'') = ''rag''
   \<and> run (demo_agent ''RAG'' ''SELECT 1'' db_orders) ''What is the return policy?'' ''str''
         no_effects
       = Inl (KeyError ''success'')"
  using rag_route_raises_KeyError
    [of "demo_agent ''RAG'' ''SELECT 1'' db_orders" no_effects "''What is the return policy?''"
      "''str''"]
  by (simp add: demo_agent_def router_eval)

text \<open>
  Claim C2. In every configuration reachable from the initial state the repair counter
  is at most 2; the repair node is entered only with a failed execution result and a
  counter below 2; when the executor runs with the counter at 2, the next node is the
  synthesizer whether or not that execution succeeded, the counter is still 2 and the
  state holds the result of that last execution; the synthesizer changes neither; and
  the run never exhausts the recursion limit of the graph.
\<close>

theorem repair_counter_bounded:
  assumes "after_steps a k (initial_state q h, w0) = Inr (n, st, w)"
  shows "repair_count st \<le> 2
    \<and> (n = repair_n \<longrightarrow> repair_count st < 2 \<and> \<not> succeeded (sql_results st))
    \<and> (n = executor \<and> repair_count st = 2 \<longrightarrow>
         (\<forall>n' st' w'. step a (n, st, w) = Inr (n', st', w') \<longrightarrow>
            n' = synthesizer \<and> repair_count st' = 2
            \<and> sql_results st'
                = (if sql st = []
                   then [(''success'', PBool True), (''rows'', PRows []), (''columns'', PStrs [])]
                   else execute_query a (db_log w) (sql st))))
    \<and> (n = synthesizer \<longrightarrow>
         (\<forall>st' w'. step a (n, st, w) = Inr (END, st', w') \<longrightarrow>
            repair_count st' = repair_count st \<and> sql_results st' = sql_results st))
    \<and> graph_invoke a (initial_state q h, w0) \<noteq> Inl GraphRecursionError"
proof -
  have inv: "repair_inv n st"
    using assms by (rule after_steps_inv) (simp add: initial_state_def)
  have capped: "n' = synthesizer \<and> repair_count st' = 2
      \<and> sql_results st'
          = (if sql st = []
             then [(''success'', PBool True), (''rows'', PRows []), (''columns'', PStrs [])]
             else execute_query a (db_log w) (sql st))"
    if "n = executor" "repair_count st = 2" "step a (n, st, w) = Inr (n', st', w')" for n' st' w'
  proof -
    from that obtain d where e: "executor_node a (st, w) = Inr (st', w')"
      and d: "should_repair st' = Inr d"
      and n': "n' = (if d = ''repair'' then repair_n else synthesizer)"
      by (auto simp: step_def split: sum.splits)
    from e that(2) have c: "repair_count st' = 2"
      by (simp add: executor_node_keeps)
    then have "should_repair st' = Inr ''synthesize''"
      by (simp add: should_repair_capped)
    with d n' have "n' = synthesizer" by auto
    with c e show ?thesis
      by (simp add: executor_node_keeps)
  qed
  have synth: "repair_count st' = repair_count st \<and> sql_results st' = sql_results st"
    if "n = synthesizer" "step a (n, st, w) = Inr (END, st', w')" for st' w'
    using that by (auto simp: step_def split: sum.splits dest: synthesizer_node_keeps)
  from inv have "repair_count st \<le> 2"
    and "n = repair_n \<longrightarrow> repair_count st < 2 \<and> \<not> succeeded (sql_results st)"
    by (simp_all add: repair_inv_def)
  with capped synth graph_invoke_bounded[of a q h w0] show ?thesis
    by blast
qed

theorem repair_counter_bounded_witness:
  "\<exists>st w. after_steps (demo_agent ''SQL'' ''SELECT * FROM Ordrs'' db_failing) 9
             (initial_state ''How many orders?'' ''int'', no_effects)
           = Inr (synthesizer, st, w)
         \<and> repair_count st = 2 \<and> repair_count st \<le> 2
         \<and> map_of (sql_results st) ''success'' = Some (PBool False)
         \<and> db_log w = [''SELECT * FROM Ordrs'', ''SELECT * FROM Ordrs'', ''SELECT * FROM Ordrs'']"
proof -
  have "\<exists>st w. after_steps (demo_agent ''SQL'' ''SELECT * FROM Ordrs'' db_failing) 9
             (initial_state ''How many orders?'' ''int'', no_effects)
           = Inr (synthesizer, st, w)
         \<and> repair_count st = 2
         \<and> map_of (sql_results st) ''success'' = Some (PBool False)
         \<and> db_log w = [''SELECT * FROM Ordrs'', ''SELECT * FROM Ordrs'', ''SELECT * FROM Ordrs'']"
    by (simp add: eval_nat_numeral run_eval router_eval ranker_eval graded_retriever_def)
  then obtain st w where
    e: "after_steps (demo_agent ''SQL'' ''SELECT * FROM Ordrs'' db_failing) 9
          (initial_state ''How many orders?'' ''int'', no_effects) = Inr (synthesizer, st, w)"
    and r: "repair_count st = 2" "map_of (sql_results st) ''success'' = Some (PBool False)"
      "db_log w = [''SELECT * FROM Ordrs'', ''SELECT * FROM Ordrs'', ''SELECT * FROM Ordrs'']"
    by blast
  from repair_counter_bounded[OF e] have "repair_count st \<le> 2"
    by blast
  with e r show ?thesis
    by blast
qed

text \<open>
  Claim C8. When the SQL text of the state is empty, the executor returns without
  handing any statement to the relational engine (the effects are unchanged), and the
  state it returns differs only in \<^verbatim>\<open>sql_results\<close>, which is the successful result with no
  rows and no columns; no exception is raised and the workflow goes on to the
  synthesizer.
\<close>

theorem executor_empty_sql_noop:
  assumes "sql state = []"
  shows "executor_node a (state, w)
      = Inr (state\<lparr>sql_results :=
               [(''success'', PBool True), (''rows'', PRows []), (''columns'', PStrs [])]\<rparr>, w)
    \<and> succeeded [(''success'', PBool True), (''rows'', PRows []), (''columns'', PStrs [])]
    \<and> \<not> has_rows [(''success'', PBool True), (''rows'', PRows []), (''columns'', PStrs [])]
    \<and> step a (executor, state, w)
      = Inr (synthesizer,
             state\<lparr>sql_results :=
               [(''success'', PBool True), (''rows'', PRows []), (''columns'', PStrs [])]\<rparr>, w)"
  using assms
  by (simp add: executor_empty step_executor_empty succeeded_def has_rows_def)

theorem executor_empty_sql_noop_witness:
  "sql (initial_state ''What is the return policy?'' ''str'') = []
   \<and> executor_node (demo_agent ''sql'' [] db_failing)
         (initial_state ''What is the return policy?'' ''str'', no_effects)
       = Inr ((initial_state ''What is the return policy?'' ''str'')
                \<lparr>sql_results :=
                   [(''success'', PBool True), (''rows'', PRows []), (''columns'', PStrs [])]\<rparr>,
              no_effects)"
  using executor_empty_sql_noop
    [of "initial_state ''What is the return policy?'' ''str''"
      "demo_agent ''sql'' [] db_failing" no_effects]
  by (simp add: initial_state_def)

section \<open>Properties of the confidence score and the citations\<close>

text \<open>
  The rounding to binary64 at some known points: the numerators and denominators are
  those of Python's \<^verbatim>\<open>float.as_integer_ratio\<close> for 0.1, 0.3 and 123.46. The binary64
  number nearest to 2.675 lies below it and rounds to 2.67.
\<close>

lemma double_values:
  "double (1 / 10) = 3602879701896397 / 36028797018963968
   \<and> double (3 / 10) = 5404319552844595 / 18014398509481984
   \<and> double (12346 / 100) = 8687725156174397 / 70368744177664
   \<and> double (1 / 2) = 1 / 2
   \<and> py_round2 (double (2675 / 1000)) = double (267 / 100)
   \<and> py_round2 (1 / 8) = double (12 / 100)"
  by code_simp

lemma double_tenth: "double (1 / 10) = 3602879701896397 / 36028797018963968"
  by code_simp

lemma bit_length_1: "bit_length (Suc 0) = Suc 0"
  by (simp add: bit_length.simps[of "Suc 0"] bit_length.simps[of 0])

lemma binade_unit:
  assumes "0 < y" "y \<le> 1"
  shows "binade y \<le> 0"
proof (cases "1 \<le> y")
  case True
  with assms have "y = 1" by simp
  then show ?thesis by (simp add: binade_def bit_length_1)
next
  case False
  then show ?thesis by (simp add: binade_def)
qed

lemma round_half_even_cases:
  "round_half_even y = \<lfloor>y\<rfloor> \<and> y - of_int \<lfloor>y\<rfloor> \<le> 1 / 2
   \<or> round_half_even y = \<lfloor>y\<rfloor> + 1 \<and> 1 / 2 \<le> y - of_int \<lfloor>y\<rfloor>"
  by (auto simp: round_half_even_def Let_def)

lemma round_half_even_near: "\<bar>y - of_int (round_half_even y)\<bar> \<le> 1 / 2"
proof -
  have "of_int \<lfloor>y\<rfloor> \<le> y" "y < of_int \<lfloor>y\<rfloor> + 1"
    by linarith+
  with round_half_even_cases[of y] show ?thesis
    by auto
qed

lemma round_half_even_lower:
  assumes "of_int lo \<le> y"
  shows "lo \<le> round_half_even y"
proof -
  from assms have "lo \<le> \<lfloor>y\<rfloor>"
    by (simp add: le_floor_iff)
  with round_half_even_cases[of y] show ?thesis
    by auto
qed

lemma round_half_even_upper:
  assumes "y \<le> of_int hi"
  shows "round_half_even y \<le> hi"
proof -
  from assms have f: "\<lfloor>y\<rfloor> \<le> hi"
    by (simp add: floor_le_iff)
  have "\<lfloor>y\<rfloor> + 1 \<le> hi" if "1 / 2 \<le> y - of_int \<lfloor>y\<rfloor>"
  proof -
    from that assms have "(of_int \<lfloor>y\<rfloor> :: rat) < of_int hi"
      by linarith
    then have "\<lfloor>y\<rfloor> < hi"
      by (simp only: of_int_less_iff)
    then show ?thesis by simp
  qed
  with f round_half_even_cases[of y] show ?thesis
    by auto
qed

lemma double_unit:
  assumes "0 \<le> y" "y \<le> 1"
  shows "0 \<le> double y \<and> double y \<le> 1"
proof (cases "y = 0")
  case True
  then show ?thesis by (simp add: double_def)
next
  case False
  with assms have pos: "0 < y" by simp
  define e where "e = max (binade \<bar>y\<bar>) (- 1022)"
  define m where "m = nat (52 - e)"
  have "e \<le> 0"
    using binade_unit[OF pos assms(2)] pos by (simp add: e_def)
  then have q: "pow2 (e - 52) = 1 / 2 ^ m"
    by (simp add: pow2_def m_def)
  have d: "double y = of_int (round_half_even (y * 2 ^ m)) / 2 ^ m"
    using False by (simp add: double_def Let_def q flip: e_def)
  have "(0::rat) \<le> y * 2 ^ m"
    using assms(1) by simp
  then have lo: "0 \<le> round_half_even (y * 2 ^ m)"
    using round_half_even_lower[of 0 "y * 2 ^ m"] by simp
  have "y * 2 ^ m \<le> of_int (2 ^ m)"
    using assms(2) by (simp add: mult_left_le_one_le)
  then have hi: "round_half_even (y * 2 ^ m) \<le> 2 ^ m"
    by (rule round_half_even_upper)
  from lo have "0 \<le> double y"
    by (simp add: d)
  moreover from hi have "(of_int (round_half_even (y * 2 ^ m)) :: rat) \<le> of_int (2 ^ m)"
    by (simp only: of_int_le_iff)
  then have "double y \<le> 1"
    by (simp add: d divide_le_eq)
  ultimately show ?thesis by simp
qed

text \<open>
  The final rounding, on a value of the unit interval: the result is the binary64 number
  nearest to a whole number of hundredths, and that number of hundredths is a nearest one
  to the value rounded.
\<close>

lemma py_round2_unit:
  assumes "0 \<le> x" "x \<le> 1"
  shows "\<exists>k. 0 \<le> k \<and> k \<le> 100 \<and> py_round2 x = double (of_int k / 100)
           \<and> \<bar>x - of_int k / 100\<bar> \<le> 1 / 200
           \<and> 0 \<le> py_round2 x \<and> py_round2 x \<le> 1"
proof -
  define k where "k = round_half_even (x * 100)"
  have k0: "0 \<le> k"
    using assms(1) round_half_even_lower[of 0 "x * 100"] by (simp add: k_def)
  have k100: "k \<le> 100"
    using assms(2) round_half_even_upper[of "x * 100" 100] by (simp add: k_def)
  have near: "\<bar>x - of_int k / 100\<bar> \<le> 1 / 200"
  proof -
    have "x - of_int k / 100 = (x * 100 - of_int k) / 100"
      by (simp add: diff_divide_distrib)
    then have "\<bar>x - of_int k / 100\<bar> = \<bar>x * 100 - of_int k\<bar> / 100"
      by (simp only: abs_divide abs_numeral)
    also have "\<dots> \<le> (1 / 2) / 100"
      using round_half_even_near[of "x * 100"] by (simp only: k_def divide_right_mono)
    finally show ?thesis by simp
  qed
  have eq: "py_round2 x = double (of_int k / 100)"
    by (simp add: py_round2_def k_def)
  have "0 \<le> (of_int k / 100 :: rat)" "(of_int k / 100 :: rat) \<le> 1"
    using k0 k100 by simp_all
  then have "0 \<le> double (of_int k / 100) \<and> double (of_int k / 100) \<le> 1"
    by (rule double_unit)
  with k0 k100 near eq show ?thesis
    by auto
qed

lemma unrounded_confidence_unit:
  "0 \<le> unrounded_confidence s b xs n \<and> unrounded_confidence s b xs n \<le> 1"
  by (simp add: unrounded_confidence_def Let_def)

lemma success_and_rows_Inr:
  assumes "success_and_rows d = Inr b"
  shows "b = (succeeded d \<and> has_rows d)"
  using assms
  by (auto simp: success_and_rows_def succeeded_def has_rows_def getitem_def
      split: option.splits if_splits)

lemma calculate_confidence_spec:
  assumes "calculate_confidence a st = Inr c"
  shows "c = spec_confidence (float_sum a)
               (succeeded (sql_results st) \<and> has_rows (sql_results st))
               (map doc_score (retrieved_docs st)) (repair_count st)"
proof -
  from assms obtain b where b: "success_and_rows (sql_results st) = Inr b"
    by (auto simp: calculate_confidence_def Let_def split: sum.splits)
  then have "b = (succeeded (sql_results st) \<and> has_rows (sql_results st))"
    by (rule success_and_rows_Inr)
  with assms b show ?thesis
    by (auto simp: calculate_confidence_def spec_confidence_def unrounded_confidence_def
        Let_def)
qed

lemma spec_confidence_one_chunk:
  assumes "s [double (9 / 10)] = double (9 / 10)"
  shows "spec_confidence s True [double (9 / 10)] 0 = double (98 / 100)"
proof -
  have "spec_confidence s True [double (9 / 10)] 0
      = spec_confidence (\<lambda>xs. double (9 / 10)) True [double (9 / 10)] 0"
    using assms by (simp add: spec_confidence_def unrounded_confidence_def)
  also have "\<dots> = double (98 / 100)"
    by code_simp
  finally show ?thesis .
qed

lemma spec_confidence_two_repairs: "spec_confidence s False [] 2 = double (3 / 10)"
proof -
  have "spec_confidence s False [] 2 = spec_confidence (\<lambda>xs. 0) False [] 2"
    by (simp add: spec_confidence_def unrounded_confidence_def)
  also have "\<dots> = double (3 / 10)"
    by code_simp
  finally show ?thesis .
qed

text \<open>
  Scores at which the binary arithmetic and the exact one part: one chunk of score 0.125
  gives 0.53 and two chunks of scores 0.5 and 0.25 give 0.57, where the exact sums 0.525
  and 0.575 would round to 0.52 and 0.58.
\<close>

lemma spec_confidence_binary_ties:
  "spec_confidence sum_left False [1 / 8] 0 = double (53 / 100)
   \<and> spec_confidence sum_left False [1 / 2, 1 / 4] 0 = double (57 / 100)
   \<and> spec_confidence sum_left True [1 / 2, 1 / 2, 1 / 4] 0 = double (88 / 100)"
  by code_simp

lemma sublist_quoted: "sublist (q @ u @ q') s \<Longrightarrow> sublist u s"
  by (auto simp: sublist_def) (metis append.assoc)

lemma sublist_in_quotes: "sublist (c # u @ [c']) s \<Longrightarrow> sublist u s"
  using sublist_quoted[of "[c]" u "[c']" s] by simp

lemma set_table_citations:
  "set (table_citations s) = {t \<in> set tables. py_in (upper t) s}"
  by (auto simp: table_citations_def py_in_def dest: sublist_in_quotes)

lemma set_doc_citations:
  "set (doc_citations docs) = {doc_id d |d. d \<in> set docs \<and> double (1 / 10) < doc_score d}"
  by (auto simp: doc_citations_def)

lemma extract_citations_set:
  assumes "extract_citations st = Inr cs"
  shows "distinct cs
    \<and> set cs = {doc_id d |d. d \<in> set (retrieved_docs st) \<and> double (1 / 10) < doc_score d}
        \<union> (if succeeded (sql_results st) \<and> sql st \<noteq> []
           then {t \<in> set tables. py_in (upper t) (upper (sql st))} else {})"
proof -
  from assms obtain v where v: "map_of (sql_results st) ''success'' = Some v"
    and cs: "cs = remdups (doc_citations (retrieved_docs st)
        @ (if truthy v \<and> sql st \<noteq> [] then table_citations (upper (sql st)) else []))"
    by (auto simp: extract_citations_def getitem_def split: option.splits)
  from v have "succeeded (sql_results st) = truthy v"
    by (simp add: succeeded_def)
  with cs show ?thesis
    by (auto simp: set_table_citations set_doc_citations)
qed

lemma tables_not_chunk_ids: "t \<in> set tables \<Longrightarrow> \<not> py_in ''::chunk'' t"
  by (auto simp: tables_def py_in_def sublist_Cons_right)

text \<open>
  Claim C4. In every final state of the workflow the confidence score is the value of
  the specification's formula on that state, computed in Python's floating point
  arithmetic: it lies between 0 and 1; it is the float nearest to a whole number of
  hundredths, which is a nearest number of hundredths to the clamped sum; a successful
  execution with rows, one chunk of score 0.9 and no repair give 0.98; a failed execution
  after two repairs with no chunk gives 0.3.
\<close>

theorem confidence_of_final_state:
  assumes "invoke_from a fuel (n, c) = Inr (st, w)" "n \<noteq> END"
  shows "confidence st
      = spec_confidence (float_sum a)
          (succeeded (sql_results st) \<and> has_rows (sql_results st))
          (map doc_score (retrieved_docs st)) (repair_count st)
    \<and> 0 \<le> confidence st \<and> confidence st \<le> 1
    \<and> (\<exists>k. 0 \<le> k \<and> k \<le> 100 \<and> confidence st = double (of_int k / 100)
          \<and> \<bar>unrounded_confidence (float_sum a)
                (succeeded (sql_results st) \<and> has_rows (sql_results st))
                (map doc_score (retrieved_docs st)) (repair_count st)
              - of_int k / 100\<bar> \<le> 1 / 200)
    \<and> (succeeded (sql_results st) \<and> has_rows (sql_results st)
         \<and> map doc_score (retrieved_docs st) = [double (9 / 10)]
         \<and> float_sum a [double (9 / 10)] = double (9 / 10) \<and> repair_count st = 0
         \<longrightarrow> confidence st = double (98 / 100))
    \<and> (\<not> succeeded (sql_results st) \<and> retrieved_docs st = [] \<and> repair_count st = 2
         \<longrightarrow> confidence st = double (3 / 10))"
proof -
  let ?u = "unrounded_confidence (float_sum a)
      (succeeded (sql_results st) \<and> has_rows (sql_results st))
      (map doc_score (retrieved_docs st)) (repair_count st)"
  obtain st0 w0 where s: "synthesizer_node a (st0, w0) = Inr (st, w)"
    using invoke_from_final[OF assms] by auto
  then have "calculate_confidence a st0 = Inr (confidence st)"
    and "sql_results st = sql_results st0" "retrieved_docs st = retrieved_docs st0"
    and "repair_count st = repair_count st0"
    by (simp_all add: synthesizer_node_keeps)
  then have eq: "confidence st
      = spec_confidence (float_sum a)
          (succeeded (sql_results st) \<and> has_rows (sql_results st))
          (map doc_score (retrieved_docs st)) (repair_count st)"
    using calculate_confidence_spec[of a st0 "confidence st"] by simp
  then have r: "confidence st = py_round2 ?u"
    by (simp add: spec_confidence_def)
  have "0 \<le> ?u" "?u \<le> 1"
    using unrounded_confidence_unit by blast+
  then obtain k where k: "0 \<le> k" "k \<le> 100" "py_round2 ?u = double (of_int k / 100)"
    "\<bar>?u - of_int k / 100\<bar> \<le> 1 / 200" "0 \<le> py_round2 ?u" "py_round2 ?u \<le> 1"
    using py_round2_unit[of ?u] by blast
  have ex1: "confidence st = double (98 / 100)"
    if "succeeded (sql_results st) \<and> has_rows (sql_results st)"
      "map doc_score (retrieved_docs st) = [double (9 / 10)]"
      "float_sum a [double (9 / 10)] = double (9 / 10)" "repair_count st = 0"
    using that eq spec_confidence_one_chunk[of "float_sum a"] by simp
  have ex2: "confidence st = double (3 / 10)"
    if "\<not> succeeded (sql_results st)" "retrieved_docs st = []" "repair_count st = 2"
    using that eq spec_confidence_two_repairs[of "float_sum a"] by simp
  from k r have "\<exists>k. 0 \<le> k \<and> k \<le> 100 \<and> confidence st = double (of_int k / 100)
      \<and> \<bar>?u - of_int k / 100\<bar> \<le> 1 / 200"
    by auto
  with eq k r ex1 ex2 show ?thesis
    by simp
qed

theorem confidence_of_final_state_witness:
  "\<exists>st w. invoke_from (demo_agent ''sql'' ''SELECT * FROM Orders'' db_orders) 25
             (router, initial_state ''How many orders?'' ''int'', no_effects) = Inr (st, w)
         \<and> router \<noteq> END
         \<and> map doc_score (retrieved_docs st) = [1 / 2, 1 / 2, 1 / 4]
         \<and> succeeded (sql_results st) \<and> has_rows (sql_results st) \<and> repair_count st = 0
         \<and> confidence st = double (88 / 100)"
proof -
  have "\<exists>st w. invoke_from (demo_agent ''sql'' ''SELECT * FROM Orders'' db_orders) 25
             (router, initial_state ''How many orders?'' ''int'', no_effects) = Inr (st, w)
         \<and> map doc_score (retrieved_docs st) = [1 / 2, 1 / 2, 1 / 4]
         \<and> succeeded (sql_results st) \<and> has_rows (sql_results st) \<and> repair_count st = 0"
    by (simp add: eval_nat_numeral run_eval router_eval ranker_eval graded_retriever_def
        str_eval parse_answer_def parse_try_def extract_citations_def calculate_confidence_def
        success_and_rows_def succeeded_def has_rows_def dict_of_pairs_def)
  then show ?thesis
  proof (elim exE conjE)
    fix st w
    assume e: "invoke_from (demo_agent ''sql'' ''SELECT * FROM Orders'' db_orders) 25
          (router, initial_state ''How many orders?'' ''int'', no_effects) = Inr (st, w)"
      and r: "map doc_score (retrieved_docs st) = [1 / 2, 1 / 2, 1 / 4]"
        "succeeded (sql_results st)" "has_rows (sql_results st)" "repair_count st = 0"
    have "float_sum (demo_agent ''sql'' ''SELECT * FROM Orders'' db_orders) = sum_left"
      by (simp add: demo_agent_def)
    with confidence_of_final_state[OF e] r spec_confidence_binary_ties
    have "confidence st = double (88 / 100)"
      by simp
    with e r show ?thesis
      by (intro exI[of _ st] exI[of _ w]) simp
  qed
qed

text \<open>
  Chunk identifiers: the loader writes every identifier as \<^verbatim>\<open>source::chunkN\<close>, and the
  identifiers of search results are identifiers of corpus chunks.
\<close>

lemma load_documents_ids:
  assumes "c \<in> set (load_documents files)"
  shows "py_in ''::chunk'' (chunk_id c)"
proof -
  from assms obtain filename content where "c \<in> set (chunks_of_file filename content)"
    by (auto simp: load_documents_def split: if_splits)
  then obtain s i where "chunk_id c = s @ ''::chunk'' @ str_nat i"
    by (auto simp: chunks_of_file_def Let_def)
  then show ?thesis
    unfolding py_in_def by (metis sublist_appendI)
qed

lemma search_ids:
  assumes "d \<in> set (search r q k)"
  shows "\<exists>c\<in>set (chunks r). doc_id d = chunk_id c"
proof -
  from assms obtain i where i: "i \<in> set (top_indices r q k)" and d: "d = result_of r q i"
    by (auto simp: search_eq_map)
  from i have "i < length (chunks r)"
    using set_top_indices[of r q k] by auto
  with d show ?thesis
    by (auto simp: doc_id_result_of)
qed

text \<open>
  Claim C5. In every final state of the workflow the citation list has no duplicates;
  its members are exactly the identifiers of the retrieved chunks whose score exceeds
  the float 0.1, together with, when the SQL text is non-empty and its execution succeeded, the
  known table names that occur in the SQL text in any case. As chunk identifiers have the
  form \<^verbatim>\<open>source::chunkN\<close>, a table name is cited only if the SQL text is non-empty and
  its execution succeeded.
\<close>

theorem citations_of_final_state:
  assumes "invoke_from a fuel (n, c) = Inr (st, w)" "n \<noteq> END"
  shows "distinct (citations st)
    \<and> set (citations st)
        = {doc_id d |d. d \<in> set (retrieved_docs st) \<and> double (1 / 10) < doc_score d}
          \<union> (if succeeded (sql_results st) \<and> sql st \<noteq> []
             then {t \<in> set tables. py_in (upper t) (upper (sql st))} else {})
    \<and> ((\<forall>d\<in>set (retrieved_docs st). py_in ''::chunk'' (doc_id d)) \<longrightarrow>
         (\<forall>t\<in>set tables. t \<in> set (citations st) \<longrightarrow>
            sql st \<noteq> [] \<and> succeeded (sql_results st)))"
proof -
  obtain st0 w0 where s: "synthesizer_node a (st0, w0) = Inr (st, w)"
    using invoke_from_final[OF assms] by auto
  then have "extract_citations st0 = Inr (citations st)"
    and "sql_results st = sql_results st0" "retrieved_docs st = retrieved_docs st0"
    and "sql st = sql st0"
    by (simp_all add: synthesizer_node_keeps)
  then have main: "distinct (citations st)
    \<and> set (citations st)
        = {doc_id d |d. d \<in> set (retrieved_docs st) \<and> double (1 / 10) < doc_score d}
          \<union> (if succeeded (sql_results st) \<and> sql st \<noteq> []
             then {t \<in> set tables. py_in (upper t) (upper (sql st))} else {})"
    using extract_citations_set[of st0 "citations st"] by simp
  have "sql st \<noteq> [] \<and> succeeded (sql_results st)"
    if ids: "\<forall>d\<in>set (retrieved_docs st). py_in ''::chunk'' (doc_id d)"
      and t: "t \<in> set tables" "t \<in> set (citations st)" for t
  proof (rule ccontr)
    assume "\<not> (sql st \<noteq> [] \<and> succeeded (sql_results st))"
    with main t(2) obtain d where "d \<in> set (retrieved_docs st)" "t = doc_id d"
      by auto
    with ids have "py_in ''::chunk'' t" by simp
    with t(1) show False
      using tables_not_chunk_ids by blast
  qed
  with main show ?thesis
    by blast
qed

theorem citations_of_final_state_witness:
  "\<exists>st w. invoke_from (demo_agent ''sql'' ''SELECT * FROM Orders'' db_orders) 25
             (router, initial_state ''How many orders?'' ''int'', no_effects) = Inr (st, w)
         \<and> router \<noteq> END
         \<and> citations st = [''kpi::chunk2'', ''kpi::chunk0'', ''kpi::chunk3'', ''Orders'']
         \<and> distinct (citations st)
         \<and> sql st = ''SELECT * FROM Orders'' \<and> succeeded (sql_results st)"
proof -
  have "\<exists>st w. invoke_from (demo_agent ''sql'' ''SELECT * FROM Orders'' db_orders) 25
             (router, initial_state ''How many orders?'' ''int'', no_effects) = Inr (st, w)
         \<and> citations st = [''kpi::chunk2'', ''kpi::chunk0'', ''kpi::chunk3'', ''Orders'']
         \<and> sql st = ''SELECT * FROM Orders'' \<and> succeeded (sql_results st)"
    by (simp add: eval_nat_numeral run_eval router_eval ranker_eval graded_retriever_def
        str_eval parse_answer_def parse_try_def extract_citations_def calculate_confidence_def
        success_and_rows_def succeeded_def has_rows_def dict_of_pairs_def double_tenth
        doc_citations_def table_citations_def tables_def upper_def upper_char_def)
  then show ?thesis
  proof (elim exE conjE)
    fix st w
    assume e: "invoke_from (demo_agent ''sql'' ''SELECT * FROM Orders'' db_orders) 25
          (router, initial_state ''How many orders?'' ''int'', no_effects) = Inr (st, w)"
      and r: "citations st = [''kpi::chunk2'', ''kpi::chunk0'', ''kpi::chunk3'', ''Orders'']"
        "sql st = ''SELECT * FROM Orders''" "succeeded (sql_results st)"
    from citations_of_final_state[OF e] have "distinct (citations st)"
      by blast
    with e r show ?thesis
      by (intro exI[of _ st] exI[of _ w]) simp
  qed
qed

end
